theory Spec2Isabelle
  imports Complex_Main "HOL-Library.Log_Nat" "HOL-Library.Code_Target_Numeral"
begin

section \<open>IEEE-754 single precision\<close>

text \<open>
  The element type of \<^verbatim>\<open>Vector\<close> and \<^verbatim>\<open>Matrix\<close> is the C++ \<^verbatim>\<open>float\<close>:
  IEEE-754 binary32, with round-to-nearest, ties-to-even.

  Every finite binary32 value is an integer multiple of the smallest subnormal
  \<open>2 ^ -149\<close>, so a finite value is kept as its sign and its magnitude counted in
  that unit: \<open>Finite s n\<close> is \<open>(-1) ^ s * n * 2 ^ -149\<close>.  The largest finite value
  is \<open>(2 ^ 24 - 1) * 2 ^ 253\<close> units.  All NaN bit patterns are one value \<open>NaN\<close>
  (the standard does not fix the payload an operation returns).

  Each operation computes the exact result and rounds it once; in
  \<^verbatim>\<open>sum += a * b\<close> the product is rounded to binary32 before it is added.
\<close>

datatype float32 = Finite bool nat | Infinity bool | NaN

definition representable :: "nat \<Rightarrow> bool" where
  \<comment> \<open>at most 24 significant bits, below the overflow threshold\<close>
  "representable n \<longleftrightarrow> n < 2 ^ 277 \<and> 2 ^ (floorlog 2 n - 24) dvd n"

fun is_finite :: "float32 \<Rightarrow> bool" where
  \<comment> \<open>a finite binary32 value: neither an infinity nor a NaN\<close>
  "is_finite (Finite s n) = representable n"
| "is_finite _ = False"

definition round_half_even :: "nat \<Rightarrow> nat \<Rightarrow> nat" where
  \<comment> \<open>the integer nearest to \<open>N / 2 ^ k\<close>, the even one of two equally near\<close>
  "round_half_even N k =
     (let q = N div 2 ^ k; r = N mod 2 ^ k
      in if 2 * r > 2 ^ k \<or> (2 * r = 2 ^ k \<and> odd q) then q + 1 else q)"

definition round_units :: "nat \<Rightarrow> nat \<Rightarrow> nat" where
  \<comment> \<open>\<open>N / 2 ^ d\<close> units rounded to 24 significant bits (exponent range unbounded above);
      below \<open>2 ^ 24\<close> units the spacing of binary32 values is one unit\<close>
  "round_units N d =
     (let p = floorlog 2 N - d - 24
      in round_half_even N (d + p) * 2 ^ p)"

definition round_float :: "bool \<Rightarrow> nat \<Rightarrow> nat \<Rightarrow> float32" where
  \<comment> \<open>the binary32 value of sign \<open>s\<close> nearest to the magnitude \<open>N / 2 ^ d\<close> units;
      a rounded magnitude beyond the largest finite value overflows to infinity\<close>
  "round_float s N d =
     (let n = round_units N d in if n < 2 ^ 277 then Finite s n else Infinity s)"

fun fadd :: "float32 \<Rightarrow> float32 \<Rightarrow> float32" where
  "fadd NaN _ = NaN"
| "fadd _ NaN = NaN"
| "fadd (Infinity s) (Infinity t) = (if s = t then Infinity s else NaN)"
| "fadd (Infinity s) (Finite t b) = Infinity s"
| "fadd (Finite s a) (Infinity t) = Infinity t"
| "fadd (Finite s a) (Finite t b) =
     (if s = t then round_float s (a + b) 0
      else if a = b then Finite False 0
      else if b < a then round_float s (a - b) 0
      else round_float t (b - a) 0)"

fun fmul :: "float32 \<Rightarrow> float32 \<Rightarrow> float32" where
  "fmul NaN _ = NaN"
| "fmul _ NaN = NaN"
| "fmul (Infinity s) (Infinity t) = Infinity (s \<noteq> t)"
| "fmul (Infinity s) (Finite t b) = (if b = 0 then NaN else Infinity (s \<noteq> t))"
| "fmul (Finite s a) (Infinity t) = (if a = 0 then NaN else Infinity (s \<noteq> t))"
| "fmul (Finite s a) (Finite t b) = round_float (s \<noteq> t) (a * b) 149"

fun feq :: "float32 \<Rightarrow> float32 \<Rightarrow> bool" where
  \<comment> \<open>the comparison \<^verbatim>\<open>==\<close> of C++: a NaN equals nothing, the two zeros are equal\<close>
  "feq NaN _ = False"
| "feq _ NaN = False"
| "feq (Finite s a) (Finite t b) = (a = b \<and> (s = t \<or> a = 0))"
| "feq x y = (x = y)"

definition float_of_nat :: "nat \<Rightarrow> float32" where
  \<comment> \<open>a literal such as \<^verbatim>\<open>5.0f\<close>: the natural number converted to binary32\<close>
  "float_of_nat n = round_float False (n * 2 ^ 149) 0"

text \<open>
  The operators of the source: \<open>+\<close> and \<open>*\<close> on \<^typ>\<open>float32\<close> are \<open>fadd\<close> and \<open>fmul\<close>,
  \<open>0\<close> is \<^verbatim>\<open>0.0f\<close> and \<open>1\<close> is \<^verbatim>\<open>1.0f\<close>.  The loops below are written over any type
  with these operators, so that they can also be read over exact arithmetic.
\<close>

instantiation float32 :: "{zero, one, plus, times}"
begin

definition zero_float32 :: float32 where
  "zero_float32 = Finite False 0"

definition one_float32 :: float32 where
  "one_float32 = Finite False (2 ^ 149)"

definition plus_float32 :: "float32 \<Rightarrow> float32 \<Rightarrow> float32" where
  "plus_float32 = fadd"

definition times_float32 :: "float32 \<Rightarrow> float32 \<Rightarrow> float32" where
  "times_float32 = fmul"

instance ..

end

section \<open>Errors\<close>

text \<open>
  The reference checks nothing.  An element access outside an object's storage is
  undefined behaviour there; the model makes each such access a branch that returns
  \<open>IndexOutOfRange\<close>.  \<open>InvalidReference\<close> is the use of a reference or a view whose
  object is not alive, undefined behaviour as well.  \<open>NaNSignNotKept\<close> is no failure
  of the program: it marks an output that contains the text of a NaN, which depends
  on a sign bit the model does not keep.
\<close>

datatype error = IndexOutOfRange | InvalidReference | NaNSignNotKept

section \<open>Vector (vector.h)\<close>

text \<open>
  \<^verbatim>\<open>size_t\<close> counters and sizes are natural numbers: every counter stays below a
  container size, so no increment wraps.
\<close>

record 'a Vector =
  data_mem :: "'a list"  \<comment> \<open>the member \<^verbatim>\<open>data_\<close>\<close>

definition Vector_init :: "'a list \<Rightarrow> 'a Vector" where
  \<comment> \<open>\<^verbatim>\<open>Vector(std::initializer_list<float> init) : data_(std::move(init))\<close>\<close>
  "Vector_init init = \<lparr>data_mem = init\<rparr>"

definition data :: "'a Vector \<Rightarrow> 'a list" where
  \<comment> \<open>\<^verbatim>\<open>std::span<const float> data() const\<close>: a view of all elements\<close>
  "data v = data_mem v"

text \<open>
  \<^verbatim>\<open>operator+=\<close> mutates the object it is called on and reads its argument through a
  reference, so the \<^verbatim>\<open>Vector\<close> objects alive are kept in a list and an object is
  referred to by its position there.
\<close>

type_synonym 'a objects = "'a Vector list"

definition deref :: "'a objects \<Rightarrow> nat \<Rightarrow> error + 'a Vector" where
  "deref st r = (if r < length st then Inr (st ! r) else Inl InvalidReference)"

function plus_assign_loop :: "nat \<Rightarrow> nat \<Rightarrow> nat \<Rightarrow> 'a::plus objects \<Rightarrow> error + 'a objects" where
  \<comment> \<open>\<^verbatim>\<open>for (size_t i = 0; i < data_.size(); ++i) data_[i] += rhs.data_[i];\<close>
      from counter \<open>i\<close> on; both operands are read from the live objects at every step\<close>
  "plus_assign_loop this rhs i st =
     (if this < length st \<and> rhs < length st then
        if i < length (data_mem (st ! this)) then
          if i < length (data_mem (st ! rhs)) then
            plus_assign_loop this rhs (i + 1)
              (st[this := \<lparr>data_mem = (data_mem (st ! this))
                        [i := data_mem (st ! this) ! i + data_mem (st ! rhs) ! i]\<rparr>])
          else Inl IndexOutOfRange
        else Inr st
      else Inl InvalidReference)"
  by pat_completeness auto
termination
  by (relation "measure (\<lambda>(this, rhs, i, st). length (data_mem (st ! this)) - i)") auto

declare plus_assign_loop.simps [simp del]

definition operator_plus_assign :: "nat \<Rightarrow> nat \<Rightarrow> 'a::plus objects \<Rightarrow> error + nat \<times> 'a objects" where
  \<comment> \<open>\<^verbatim>\<open>Vector &operator+=(const Vector &rhs)\<close>: the loop, then \<^verbatim>\<open>return *this\<close>\<close>
  "operator_plus_assign this rhs st =
     (case plus_assign_loop this rhs 0 st of
        Inl e \<Rightarrow> Inl e
      | Inr st' \<Rightarrow> Inr (this, st'))"

definition operator_plus :: "'a Vector \<Rightarrow> nat \<Rightarrow> 'a::plus objects \<Rightarrow> error + 'a Vector \<times> 'a objects" where
  \<comment> \<open>\<^verbatim>\<open>Vector operator+(Vector lhs, const Vector &rhs) { return lhs += rhs; }\<close>:
      the by-value parameter \<open>lhs\<close> is a new object, the returned \<^verbatim>\<open>Vector\<close> is copied
      from the reference \<^verbatim>\<open>+=\<close> returns, and \<open>lhs\<close> is destroyed on return\<close>
  "operator_plus lhs rhs st =
     (case operator_plus_assign (length st) rhs (st @ [lhs]) of
        Inl e \<Rightarrow> Inl e
      | Inr (r, st') \<Rightarrow>
          (case deref st' r of
             Inl e \<Rightarrow> Inl e
           | Inr v \<Rightarrow> Inr (v, butlast st')))"

definition add :: "'a::plus Vector \<Rightarrow> 'a Vector \<Rightarrow> error + 'a Vector" where
  \<comment> \<open>the expression \<^verbatim>\<open>a + b\<close> on two vector values: \<open>b\<close> is the only other object\<close>
  "add a b =
     (case operator_plus a 0 [b] of
        Inl e \<Rightarrow> Inl e
      | Inr (v, st) \<Rightarrow> Inr v)"

section \<open>Matrix and mul (mmul.cc)\<close>

text \<open>
  Modelled from the spec: the members of \<^verbatim>\<open>Matrix\<close> are declared in mmul.cc, their
  bodies and \<^verbatim>\<open>MatrixPimpl\<close> are not part of the sources.  The spec: a height by width
  grid of floats addressed by zero-based (row, column), one buffer indexed by
  \<open>row * width + col\<close>, created with explicit dimensions; \<^verbatim>\<open>get\<close> reads and \<^verbatim>\<open>set\<close>
  writes, both require in-bounds coordinates.  The contents of a new matrix are not
  specified; here they are zeros (\<^verbatim>\<open>mul\<close> writes every cell of its result).
\<close>

record 'a Matrix =
  height :: nat
  width :: nat
  cells :: "'a list"

definition Matrix_new :: "nat \<Rightarrow> nat \<Rightarrow> 'a::zero Matrix" where
  \<comment> \<open>Modelled from the spec: the constructor \<^verbatim>\<open>Matrix(size_t height, size_t width)\<close>,
      "created with explicit dimensions"\<close>
  "Matrix_new h w = \<lparr>height = h, width = w, cells = replicate (h * w) 0\<rparr>"

definition get_height :: "'a Matrix \<Rightarrow> nat" where
  \<comment> \<open>Modelled from the spec: \<^verbatim>\<open>size_t get_height() const\<close>\<close>
  "get_height m = height m"

definition get_width :: "'a Matrix \<Rightarrow> nat" where
  \<comment> \<open>Modelled from the spec: \<^verbatim>\<open>size_t get_width() const\<close>\<close>
  "get_width m = width m"

definition get :: "'a Matrix \<Rightarrow> nat \<Rightarrow> nat \<Rightarrow> error + 'a" where
  \<comment> \<open>Modelled from the spec: \<^verbatim>\<open>float get(size_t i, size_t j) const\<close> reads the cell at
      \<open>i * width + j\<close>; out-of-bounds coordinates are undefined in the reference\<close>
  "get m i j =
     (if i < height m \<and> j < width m \<and> i * width m + j < length (cells m)
      then Inr (cells m ! (i * width m + j))
      else Inl IndexOutOfRange)"

definition set_elem :: "'a Matrix \<Rightarrow> nat \<Rightarrow> nat \<Rightarrow> 'a \<Rightarrow> error + 'a Matrix" where
  \<comment> \<open>Modelled from the spec: \<^verbatim>\<open>void set(size_t i, size_t j, float value)\<close> writes the
      cell at \<open>i * width + j\<close>; out-of-bounds coordinates are undefined in the reference\<close>
  "set_elem m i j v =
     (if i < height m \<and> j < width m \<and> i * width m + j < length (cells m)
      then Inr (m\<lparr>cells := (cells m)[i * width m + j := v]\<rparr>)
      else Inl IndexOutOfRange)"

function mul_k_loop :: "'a::{plus,times} Matrix \<Rightarrow> 'a Matrix \<Rightarrow> nat \<Rightarrow> nat \<Rightarrow> nat \<Rightarrow> 'a \<Rightarrow> error + 'a" where
  \<comment> \<open>\<^verbatim>\<open>for (size_t k = 0; k < lhs.get_width(); ++k) sum += lhs.get(i, k) * rhs.get(k, j);\<close>\<close>
  "mul_k_loop lhs rhs i j k sum_acc =
     (if k < get_width lhs then
        (case get lhs i k of
           Inl e \<Rightarrow> Inl e
         | Inr a \<Rightarrow>
             (case get rhs k j of
                Inl e \<Rightarrow> Inl e
              | Inr b \<Rightarrow> mul_k_loop lhs rhs i j (k + 1) (sum_acc + a * b)))
      else Inr sum_acc)"
  by pat_completeness auto
termination
  by (relation "measure (\<lambda>(lhs, rhs, i, j, k, sum_acc). get_width lhs - k)") auto

declare mul_k_loop.simps [simp del]

function mul_j_loop :: "'a::{zero,plus,times} Matrix \<Rightarrow> 'a Matrix \<Rightarrow> nat \<Rightarrow> nat \<Rightarrow> 'a Matrix \<Rightarrow> error + 'a Matrix" where
  \<comment> \<open>\<^verbatim>\<open>for (size_t j = 0; j < rhs.get_width(); ++j) { float sum = 0.0f; ...; result.set(i, j, sum); }\<close>\<close>
  "mul_j_loop lhs rhs i j result =
     (if j < get_width rhs then
        (case mul_k_loop lhs rhs i j 0 0 of
           Inl e \<Rightarrow> Inl e
         | Inr sum_acc \<Rightarrow>
             (case set_elem result i j sum_acc of
                Inl e \<Rightarrow> Inl e
              | Inr result' \<Rightarrow> mul_j_loop lhs rhs i (j + 1) result'))
      else Inr result)"
  by pat_completeness auto
termination
  by (relation "measure (\<lambda>(lhs, rhs, i, j, result). get_width rhs - j)") auto

declare mul_j_loop.simps [simp del]

function mul_i_loop :: "'a::{zero,plus,times} Matrix \<Rightarrow> 'a Matrix \<Rightarrow> nat \<Rightarrow> 'a Matrix \<Rightarrow> error + 'a Matrix" where
  \<comment> \<open>\<^verbatim>\<open>for (size_t i = 0; i < lhs.get_height(); ++i) { ... }\<close>\<close>
  "mul_i_loop lhs rhs i result =
     (if i < get_height lhs then
        (case mul_j_loop lhs rhs i 0 result of
           Inl e \<Rightarrow> Inl e
         | Inr result' \<Rightarrow> mul_i_loop lhs rhs (i + 1) result')
      else Inr result)"
  by pat_completeness auto
termination
  by (relation "measure (\<lambda>(lhs, rhs, i, result). get_height lhs - i)") auto

declare mul_i_loop.simps [simp del]

definition mul :: "'a::{zero,plus,times} Matrix \<Rightarrow> 'a Matrix \<Rightarrow> error + 'a Matrix" where
  \<comment> \<open>\<^verbatim>\<open>Matrix result(lhs.get_height(), rhs.get_width()); ...; return result;\<close>\<close>
  "mul lhs rhs = mul_i_loop lhs rhs 0 (Matrix_new (get_height lhs) (get_width rhs))"

section \<open>The demonstration program (main.cc)\<close>

text \<open>
  \<^verbatim>\<open>std::cout << elem\<close> on a \<^verbatim>\<open>float\<close> with the stream's initial flags is the
  conversion \<^verbatim>\<open>%g\<close> with precision 6 of the value: six significant decimal digits,
  rounded half-even from the exact binary value; fixed notation when the decimal
  exponent \<open>x\<close> has \<open>-4 \<le> x < 6\<close>, else scientific with an exponent of at least two
  digits; trailing zeros of the fraction, and a decimal point with nothing after it,
  are dropped.
\<close>

definition digit_char :: "nat \<Rightarrow> char" where
  "digit_char d = ''0123456789'' ! (d mod 10)"

definition round_div :: "nat \<Rightarrow> nat \<Rightarrow> nat" where
  \<comment> \<open>the integer nearest to \<open>num / den\<close>, the even one of two equally near\<close>
  "round_div num den =
     (let q = num div den; r = num mod den
      in if 2 * r > den \<or> (2 * r = den \<and> odd q) then q + 1 else q)"

definition decimal_exponent :: "nat \<Rightarrow> int" where
  \<comment> \<open>\<open>\<lfloor>log\<^sub>1\<^sub>0 (n / 2 ^ 149)\<rfloor>\<close> for \<open>n > 0\<close>\<close>
  "decimal_exponent n =
     (if 2 ^ 149 \<le> n then int (floorlog 10 (n div 2 ^ 149)) - 1
      else - int (floorlog 10 ((2 ^ 149 - 1) div n)))"

definition scaled_digits :: "nat \<Rightarrow> int \<Rightarrow> nat" where
  \<comment> \<open>\<open>n / 2 ^ 149 / 10 ^ (x - 5)\<close> rounded to an integer\<close>
  "scaled_digits n x =
     (if x \<le> 5 then round_div (n * 10 ^ nat (5 - x)) (2 ^ 149)
      else round_div n (2 ^ 149 * 10 ^ nat (x - 5)))"

definition six_digits :: "nat \<Rightarrow> nat \<times> int" where
  \<comment> \<open>the six significant digits (as a number from \<open>10 ^ 5\<close> to \<open>10 ^ 6 - 1\<close>) and the
      decimal exponent of the first one\<close>
  "six_digits n =
     (let x = decimal_exponent n; d = scaled_digits n x
      in if d = 10 ^ 6 then (10 ^ 5, x + 1) else (d, x))"

definition strip_zeros :: "string \<Rightarrow> string" where
  "strip_zeros s = rev (dropWhile (\<lambda>c. c = CHR ''0'') (rev s))"

definition with_point :: "string \<Rightarrow> string \<Rightarrow> string" where
  "with_point ip fp = (let f = strip_zeros fp in if f = [] then ip else ip @ ''.'' @ f)"

definition format_g :: "nat \<Rightarrow> string" where
  "format_g n =
     (if n = 0 then ''0''
      else
        (case six_digits n of (d, x) \<Rightarrow>
          (let ds = map (\<lambda>i. digit_char (d div 10 ^ (5 - i))) [0..<6]
           in if - 4 \<le> x \<and> x < 6 then
                (if 0 \<le> x then with_point (take (nat x + 1) ds) (drop (nat x + 1) ds)
                 else with_point ''0'' (replicate (nat (- x) - 1) CHR ''0'' @ ds))
              else with_point (take 1 ds) (drop 1 ds) @ ''e'' @
                   (if x < 0 then ''-'' else ''+'') @
                   [digit_char (nat \<bar>x\<bar> div 10), digit_char (nat \<bar>x\<bar>)])))"

definition sign_prefix :: "bool \<Rightarrow> string" where
  "sign_prefix s = (if s then ''-'' else [])"

fun put_float :: "float32 \<Rightarrow> string option" where
  \<comment> \<open>the text \<^verbatim>\<open>std::cout << elem\<close> writes; a NaN is written as \<open>nan\<close> or \<open>-nan\<close> by its
      sign bit, which \<^typ>\<open>float32\<close> does not keep, so its text is not determined here\<close>
  "put_float NaN = None"
| "put_float (Infinity s) = Some (sign_prefix s @ ''inf'')"
| "put_float (Finite s n) = Some (sign_prefix s @ format_g n)"

text \<open>
  \<^verbatim>\<open>data()\<close> returns a \<^verbatim>\<open>std::span\<close>: a view that refers to the elements of the object it
  was called on and owns nothing.  Reading through it needs that object to be alive.
\<close>

record span =
  span_object :: nat  \<comment> \<open>the \<^verbatim>\<open>Vector\<close> whose elements are viewed\<close>
  span_size :: nat

definition data_span :: "nat \<Rightarrow> 'a objects \<Rightarrow> error + span" where
  \<comment> \<open>\<^verbatim>\<open>data()\<close> called on the object \<open>r\<close>\<close>
  "data_span r st =
     (case deref st r of
        Inl e \<Rightarrow> Inl e
      | Inr v \<Rightarrow> Inr \<lparr>span_object = r, span_size = length (data_mem v)\<rparr>)"

function range_for :: "span \<Rightarrow> nat \<Rightarrow> float32 objects \<Rightarrow> string \<Rightarrow> error + string" where
  \<comment> \<open>\<^verbatim>\<open>for (const auto &elem : ...) { std::cout << elem << ' '; }\<close> from element \<open>i\<close> of the
      span on, appending to the output so far\<close>
  "range_for sp i st out =
     (if i < span_size sp then
        (case deref st (span_object sp) of
           Inl e \<Rightarrow> Inl e
         | Inr v \<Rightarrow>
             if i < length (data_mem v) then
               (case put_float (data_mem v ! i) of
                  None \<Rightarrow> Inl NaNSignNotKept
                | Some txt \<Rightarrow> range_for sp (i + 1) st (out @ txt @ '' ''))
             else Inl IndexOutOfRange)
      else Inr out)"
  by pat_completeness auto
termination
  by (relation "measure (\<lambda>(sp, i, st, out). span_size sp - i)") auto

declare range_for.simps [simp del]

text \<open>
  The range-for of \<^verbatim>\<open>main\<close> iterates over \<^verbatim>\<open>(v1 + v2).data()\<close>: a span into the temporary
  \<^verbatim>\<open>Vector\<close> that \<^verbatim>\<open>v1 + v2\<close> returns.  The header \<^verbatim>\<open><span>\<close> needs C++20.  In C++20 the
  temporary is destroyed at the end of the initialisation of the range, before the
  first iteration, so the loop reads through a span whose object is gone.  In C++23
  the temporary lives until the loop ends.  The sources do not fix the standard, so it
  is a parameter of \<open>main\<close>.  \<open>main\<close> returns what it wrote to standard output and its
  exit code.
\<close>

datatype standard = Cpp20 | Cpp23

definition main :: "standard \<Rightarrow> error + string \<times> int" where
  "main std =
     (let v1 = Vector_init [float_of_nat 1, float_of_nat 2, float_of_nat 3];
          v2 = Vector_init [float_of_nat 4, float_of_nat 5, float_of_nat 6];
          st = [v1, v2]
      in case operator_plus (st ! 0) 1 st of
           Inl e \<Rightarrow> Inl e
         | Inr (tmp, st1) \<Rightarrow>
             (let st2 = st1 @ [tmp]
              in case data_span (length st1) st2 of
                   Inl e \<Rightarrow> Inl e
                 | Inr sp \<Rightarrow>
                     (let st3 = (case std of Cpp20 \<Rightarrow> butlast st2 | Cpp23 \<Rightarrow> st2)
                      in case range_for sp 0 st3 [] of
                           Inl e \<Rightarrow> Inl e
                         | Inr out \<Rightarrow> Inr (out @ [CHR 0x0A], 0))))"

section \<open>Vocabulary of the properties\<close>

definition pointwise_sum :: "'a::plus list \<Rightarrow> 'a list \<Rightarrow> 'a list" where
  \<comment> \<open>the sums \<open>x + y\<close> of the elements at equal positions, as long as both lists go\<close>
  "pointwise_sum xs ys = map (\<lambda>(x, y). x + y) (zip xs ys)"

definition vector_eq :: "float32 Vector \<Rightarrow> float32 Vector \<Rightarrow> bool" where
  \<comment> \<open>two vectors compared with \<^verbatim>\<open>==\<close> element by element: equal lengths, and every
      pair of elements at one position compares equal\<close>
  "vector_eq a b \<longleftrightarrow> list_all2 feq (data a) (data b)"

definition wf_matrix :: "'a Matrix \<Rightarrow> bool" where
  \<comment> \<open>the buffer holds exactly height times width cells\<close>
  "wf_matrix m \<longleftrightarrow> length (cells m) = height m * width m"

definition cell :: "'a Matrix \<Rightarrow> nat \<Rightarrow> nat \<Rightarrow> 'a" where
  "cell m i j = cells m ! (i * width m + j)"

definition dot :: "'a::{zero,plus,times} Matrix \<Rightarrow> 'a Matrix \<Rightarrow> nat \<Rightarrow> nat \<Rightarrow> 'a" where
  \<comment> \<open>\<open>lhs[i,0] * rhs[0,j] + \<dots> + lhs[i,k-1] * rhs[k-1,j]\<close> with \<open>k = width lhs\<close>,
      added to \<open>0\<close> from the left in this order\<close>
  "dot lhs rhs i j = foldl (\<lambda>s k. s + cell lhs i k * cell rhs k j) 0 [0..<width lhs]"

definition matrix_of_rows :: "'a list list \<Rightarrow> 'a Matrix" where
  \<comment> \<open>the matrix written row by row (all rows of one length)\<close>
  "matrix_of_rows rows =
     \<lparr>height = length rows, width = (case rows of [] \<Rightarrow> 0 | r # _ \<Rightarrow> length r),
      cells = concat rows\<rparr>"

definition identity_matrix :: "nat \<Rightarrow> 'a::{zero,one} Matrix" where
  "identity_matrix k =
     \<lparr>height = k, width = k,
      cells = map (\<lambda>n. if n div k = n mod k then 1 else 0) [0..<k * k]\<rparr>"

definition zero_matrix :: "nat \<Rightarrow> nat \<Rightarrow> 'a::zero Matrix" where
  "zero_matrix h w = \<lparr>height = h, width = w, cells = replicate (h * w) 0\<rparr>"

definition is_zero :: "float32 \<Rightarrow> bool" where
  "is_zero x \<longleftrightarrow> x = Finite False 0 \<or> x = Finite True 0"

definition pos_zero :: "float32 \<Rightarrow> float32" where
  \<comment> \<open>\<open>-0.0\<close> becomes \<open>+0.0\<close>, every other value is kept\<close>
  "pos_zero x = (if x = Finite True 0 then Finite False 0 else x)"

definition all_finite :: "float32 Matrix \<Rightarrow> bool" where
  \<comment> \<open>every cell is a finite binary32 value: no infinity, no NaN\<close>
  "all_finite m \<longleftrightarrow> list_all is_finite (cells m)"

definition exact_nat :: "nat \<Rightarrow> bool" where
  \<comment> \<open>the natural number is a binary32 value\<close>
  "exact_nat n \<longleftrightarrow> representable (n * 2 ^ 149)"

definition map_matrix :: "('a \<Rightarrow> 'b) \<Rightarrow> 'a Matrix \<Rightarrow> 'b Matrix" where
  \<comment> \<open>the matrix of the same shape with \<open>f\<close> applied to every cell\<close>
  "map_matrix f m = \<lparr>height = height m, width = width m, cells = map f (cells m)\<rparr>"

definition small_entries :: "nat Matrix \<Rightarrow> bool" where
  \<comment> \<open>every cell is below \<open>2 ^ 24\<close>: sums and products of such numbers that stay below
      \<open>2 ^ 24\<close> are computed without rounding in binary32\<close>
  "small_entries m \<longleftrightarrow> list_all (\<lambda>x. x < 2 ^ 24) (cells m)"

section \<open>Rounding is exact on binary32 values\<close>

lemma round_half_even_exact: "2 ^ k dvd N \<Longrightarrow> round_half_even N k = N div 2 ^ k"
  by (auto simp: round_half_even_def Let_def mod_eq_0_iff_dvd)

lemma round_units_exact:
  assumes "representable n"
  shows "round_units (n * 2 ^ d) d = n"
proof (cases "n = 0")
  case True
  then show ?thesis by (simp add: round_units_def round_half_even_def floorlog_def)
next
  case False
  define e where "e = floorlog 2 n - 24"
  have fl: "floorlog 2 (n * 2 ^ d) = floorlog 2 n + d"
    using False by simp
  have dv: "2 ^ e dvd n" using assms by (simp add: representable_def e_def)
  then obtain q where q: "n = q * 2 ^ e" by (auto simp: dvd_def mult.commute)
  have N: "n * 2 ^ d = q * 2 ^ (d + e)" by (simp add: q power_add)
  have "round_half_even (n * 2 ^ d) (d + e) = q"
    unfolding N by (subst round_half_even_exact) simp_all
  moreover have "floorlog 2 (n * 2 ^ d) - d - 24 = e"
    unfolding fl e_def by simp
  ultimately have "round_units (n * 2 ^ d) d = q * 2 ^ e"
    unfolding round_units_def Let_def by simp
  then show ?thesis using q by simp
qed

lemma round_float_exact:
  assumes "representable n"
  shows "round_float s (n * 2 ^ d) d = Finite s n"
  using assms round_units_exact[OF assms, of d]
  by (simp add: round_float_def representable_def)

lemma round_float_exact0:
  "representable n \<Longrightarrow> round_float s n 0 = Finite s n"
  using round_float_exact[of n s 0] by simp

lemma representable_0 [simp]: "representable 0"
  by (simp add: representable_def)

lemma fmul_one:
  assumes "is_finite x"
  shows "fmul x 1 = x"
proof -
  from assms obtain s n where x: "x = Finite s n" "representable n"
    by (cases x) auto
  then show ?thesis by (simp add: one_float32_def round_float_exact del: power_numeral)
qed

lemma fmul_zero:
  assumes "is_finite x" "is_zero z"
  shows "is_zero (fmul x z)"
proof -
  from assms obtain s n where x: "x = Finite s n"
    by (cases x) auto
  from assms obtain t where z: "z = Finite t 0" by (auto simp: is_zero_def)
  have "round_float u 0 149 = Finite u 0" for u
    using round_float_exact[of 0 u 149] by simp
  then show ?thesis by (auto simp: x z is_zero_def)
qed

lemma fadd_zero_left:
  assumes "is_finite x"
  shows "fadd (Finite False 0) x = pos_zero x"
proof -
  from assms obtain s n where x: "x = Finite s n" "representable n"
    by (cases x) auto
  then show ?thesis
    by (auto simp: pos_zero_def round_float_exact0)
qed

lemma fadd_zero_right:
  assumes "is_finite x" "is_zero z"
  shows "fadd (pos_zero x) z = pos_zero x"
proof -
  from assms obtain s n where x: "x = Finite s n" "representable n"
    by (cases x) auto
  from assms obtain t where z: "z = Finite t 0" by (auto simp: is_zero_def)
  show ?thesis
    using x by (auto simp: z pos_zero_def round_float_exact0)
qed

lemma feq_pos_zero: "is_finite x \<Longrightarrow> feq (pos_zero x) x"
  by (cases x) (auto simp: pos_zero_def)

lemma representable_small:
  assumes "n < 2 ^ 24" "k \<le> 253"
  shows "representable (n * 2 ^ k)"
proof (cases "n = 0")
  case True then show ?thesis by simp
next
  case False
  have fl: "floorlog 2 (n * 2 ^ k) = floorlog 2 n + k" using False by simp
  have "floorlog 2 n \<le> 24" using assms by (simp add: floorlog_le_iff)
  then have "floorlog 2 n + k - 24 \<le> k" by simp
  then have "(2::nat) ^ (floorlog 2 n + k - 24) dvd 2 ^ k" by (rule le_imp_power_dvd)
  then have dv: "2 ^ (floorlog 2 n + k - 24) dvd n * 2 ^ k" by (rule dvd_mult)
  have "n * 2 ^ k < 2 ^ 24 * 2 ^ k" using assms by simp
  also have "\<dots> = 2 ^ (24 + k)" by (simp add: power_add)
  also have "\<dots> \<le> (2::nat) ^ 277" using assms by (intro power_increasing) simp_all
  finally show ?thesis using dv by (simp add: representable_def fl)
qed

lemma float_of_nat_small:
  "n < 2 ^ 24 \<Longrightarrow> float_of_nat n = Finite False (n * 2 ^ 149)"
  by (simp add: float_of_nat_def round_float_exact0 representable_small del: power_numeral)

lemma fadd_small:
  assumes "a + b < 2 ^ 24"
  shows "fadd (float_of_nat a) (float_of_nat b) = float_of_nat (a + b)"
proof -
  have "a < 2 ^ 24" "b < 2 ^ 24" using assms by simp_all
  then show ?thesis
    using assms round_float_exact0[OF representable_small[of "a + b" 149], of False]
    by (simp add: float_of_nat_small distrib_right del: power_numeral)
qed

section \<open>Arithmetic on literals\<close>

lemma zero_lit: "(0::float32) = float_of_nat 0"
  using float_of_nat_small[of 0] by (simp add: zero_float32_def)

lemma one_lit: "(1::float32) = float_of_nat 1"
proof -
  have "float_of_nat 1 = Finite False (1 * 2 ^ 149)"
    by (rule float_of_nat_small) simp
  then show ?thesis by (simp add: one_float32_def del: power_numeral One_nat_def)
qed

lemma floorlog_div_power:
  "2 ^ k \<le> n \<Longrightarrow> floorlog 2 n = floorlog 2 (n div 2 ^ k) + k"
proof (induction k arbitrary: n)
  case 0
  then show ?case by simp
next
  case (Suc k)
  then have n: "0 < n" by (cases "n = 0") simp_all
  have "2 ^ k \<le> n div 2" using Suc.prems by simp
  then have "floorlog 2 (n div 2) = floorlog 2 (n div 2 div 2 ^ k) + k" by (rule Suc.IH)
  moreover have "n div 2 div 2 ^ k = n div 2 ^ Suc k" by (simp add: div_mult2_eq)
  moreover have "floorlog 2 n = floorlog 2 (n div 2) + 1"
    using n by (subst compute_floorlog) simp
  ultimately show ?case by simp
qed

lemma floorlog_2_steps:
  "floorlog 2 n =
     (if 2 ^ 64 \<le> n then floorlog 2 (n div 2 ^ 64) + 64
      else if 2 ^ 8 \<le> n then floorlog 2 (n div 2 ^ 8) + 8
      else if 0 < n then floorlog 2 (n div 2) + 1 else 0)"
proof -
  have "floorlog 2 n = floorlog 2 (n div 2) + 1" if "0 < n"
    using that by (subst compute_floorlog) simp
  then show ?thesis
    using floorlog_div_power[of 64 n] floorlog_div_power[of 8 n]
    by (auto simp: floorlog_eq_zero_iff simp del: power_numeral)
qed

lemma round_half_even_scale: "round_half_even (N * 2 ^ d) (d + p) = round_half_even N p"
proof -
  have e: "(2::nat) ^ (d + p) = 2 ^ p * 2 ^ d" by (simp add: power_add)
  have dv: "(N * 2 ^ d) div 2 ^ (d + p) = N div 2 ^ p"
    unfolding e by simp
  have md: "(N * 2 ^ d) mod 2 ^ (d + p) = (N mod 2 ^ p) * 2 ^ d"
    unfolding e by (rule mult_mod_left[symmetric])
  have c1: "2 * ((N mod 2 ^ p) * 2 ^ d) > (2::nat) ^ (d + p) \<longleftrightarrow> 2 * (N mod 2 ^ p) > 2 ^ p"
    unfolding e mult.assoc[symmetric] by simp
  have c2: "2 * ((N mod 2 ^ p) * 2 ^ d) = (2::nat) ^ (d + p) \<longleftrightarrow> 2 * (N mod 2 ^ p) = 2 ^ p"
    unfolding e mult.assoc[symmetric] by simp
  show ?thesis
    unfolding round_half_even_def Let_def dv md c1 c2 ..
qed

lemma round_units_scale: "round_units (N * 2 ^ d) d = round_units N 0"
proof (cases "N = 0")
  case True
  then show ?thesis by (simp add: round_units_def round_half_even_def floorlog_def)
next
  case False
  then have fl: "floorlog 2 (N * 2 ^ d) = floorlog 2 N + d" by simp
  show ?thesis
    unfolding round_units_def Let_def fl
    using round_half_even_scale[of N d "floorlog 2 N - 24"] by simp
qed

lemma round_float_scale: "round_float s (N * 2 ^ d) d = round_float s N 0"
  by (simp add: round_float_def round_units_scale del: power_numeral)

lemma round_units_shift:
  assumes "2 ^ 23 \<le> N"
  shows "round_units (N * 2 ^ e) 0 = round_units N 0 * 2 ^ e"
proof -
  have N: "0 < N" using assms by (cases "N = 0") simp_all
  have "24 \<le> floorlog 2 N" using assms by (intro floorlog_geI) simp_all
  then have p: "floorlog 2 N + e - 24 = e + (floorlog 2 N - 24)" by simp
  have fl: "floorlog 2 (N * 2 ^ e) = floorlog 2 N + e" using N by simp
  show ?thesis
    unfolding round_units_def Let_def fl
    using round_half_even_scale[of N e "floorlog 2 N - 24"]
    by (simp add: p power_add)
qed

lemma scaled_less: "m * 2 ^ 149 < (2::nat) ^ 277 \<longleftrightarrow> m < 2 ^ 128"
proof -
  have e: "(2::nat) ^ 277 = 2 ^ 128 * 2 ^ 149"
    unfolding power_add[symmetric] by simp
  show ?thesis unfolding e mult_less_cancel2 by simp
qed

lemma float_of_nat_rounded:
  assumes "2 ^ 23 \<le> n"
  shows "float_of_nat n =
           (if round_units n 0 < 2 ^ 128 then Finite False (round_units n 0 * 2 ^ 149)
            else Infinity False)"
  unfolding float_of_nat_def round_float_def Let_def round_units_shift[OF assms] scaled_less ..

lemma fadd_nat:
  assumes "exact_nat a" "exact_nat b"
  shows "fadd (float_of_nat a) (float_of_nat b) = float_of_nat (a + b)"
proof -
  have "float_of_nat a = Finite False (a * 2 ^ 149)" "float_of_nat b = Finite False (b * 2 ^ 149)"
    using assms by (simp_all add: exact_nat_def float_of_nat_def round_float_exact0 del: power_numeral)
  then show ?thesis
    by (simp add: float_of_nat_def distrib_right del: power_numeral)
qed

lemma fmul_nat:
  assumes "exact_nat a" "exact_nat b"
  shows "fmul (float_of_nat a) (float_of_nat b) = float_of_nat (a * b)"
proof -
  have ab: "float_of_nat a = Finite False (a * 2 ^ 149)" "float_of_nat b = Finite False (b * 2 ^ 149)"
    using assms by (simp_all add: exact_nat_def float_of_nat_def round_float_exact0 del: power_numeral)
  have e: "a * 2 ^ 149 * (b * 2 ^ 149) = (a * b * 2 ^ 149) * (2 ^ 149 :: nat)"
    by (simp del: power_numeral)
  have "fmul (float_of_nat a) (float_of_nat b) = round_float False ((a * b * 2 ^ 149) * 2 ^ 149) 149"
    unfolding ab fmul.simps e by simp
  also have "\<dots> = round_float False (a * b * 2 ^ 149) 0"
    by (rule round_float_scale)
  also have "\<dots> = float_of_nat (a * b)"
    unfolding float_of_nat_def ..
  finally show ?thesis .
qed

lemma exact_nat_iff:
  "exact_nat n \<longleftrightarrow> n < 2 ^ 128 \<and> 2 ^ (floorlog 2 n - 24) dvd n"
proof (cases "n = 0")
  case True
  then show ?thesis by (simp add: exact_nat_def)
next
  case False
  have fl: "floorlog 2 (n * 2 ^ 149) = floorlog 2 n + 149"
    using False by (simp del: power_numeral)
  note b = scaled_less[of n]
  have d: "(2::nat) ^ (floorlog 2 n + 149 - 24) dvd n * 2 ^ 149 \<longleftrightarrow> 2 ^ (floorlog 2 n - 24) dvd n"
  proof (cases "24 \<le> floorlog 2 n")
    case True
    then have e: "floorlog 2 n + 149 - 24 = (floorlog 2 n - 24) + 149" by simp
    have nz: "(2::nat) ^ 149 \<noteq> 0" by simp
    show ?thesis unfolding e power_add dvd_times_right_cancel_iff[OF nz] ..
  next
    case False
    then have "floorlog 2 n + 149 - 24 \<le> 149" by simp
    then have "(2::nat) ^ (floorlog 2 n + 149 - 24) dvd 2 ^ 149" by (rule le_imp_power_dvd)
    then have "(2::nat) ^ (floorlog 2 n + 149 - 24) dvd n * 2 ^ 149" by (rule dvd_mult)
    then show ?thesis using False by simp
  qed
  show ?thesis unfolding exact_nat_def representable_def fl b d ..
qed

lemmas float_lit_arith =
  zero_lit plus_float32_def times_float32_def fadd_nat fmul_nat exact_nat_iff floorlog_2_steps

section \<open>Vector addition\<close>

lemma Vector_eta: "\<lparr>data_mem = data_mem v\<rparr> = (v :: 'a Vector)"
  by (cases v) simp

lemma plus_assign_loop_closed:
  assumes "this < length st" "rhs < length st"
    and "length (data_mem (st ! this)) \<le> length (data_mem (st ! rhs))"
    and "i \<le> length (data_mem (st ! this))"
  shows "plus_assign_loop this rhs i st =
           Inr (st[this := \<lparr>data_mem = take i (data_mem (st ! this)) @
                  pointwise_sum (drop i (data_mem (st ! this))) (drop i (data_mem (st ! rhs)))\<rparr>])"
  using assms
proof (induction this rhs i st rule: plus_assign_loop.induct)
  case (1 this rhs i st)
  let ?X = "data_mem (st ! this)" and ?Y = "data_mem (st ! rhs)"
  show ?case
  proof (cases "i < length ?X")
    case True
    then have iy: "i < length ?Y" using 1 by simp
    let ?X1 = "?X[i := ?X ! i + ?Y ! i]"
    let ?st1 = "st[this := \<lparr>data_mem = ?X1\<rparr>]"
    have step: "plus_assign_loop this rhs i st = plus_assign_loop this rhs (i + 1) ?st1"
      using 1 True iy by (subst plus_assign_loop.simps) simp
    have x1: "data_mem (?st1 ! this) = ?X1" using 1 by simp
    have y1: "drop (i + 1) (data_mem (?st1 ! rhs)) = drop (i + 1) ?Y"
      using 1 by (cases "rhs = this") simp_all
    have ly: "length ?X1 \<le> length (data_mem (?st1 ! rhs))"
      using 1 by (cases "rhs = this") simp_all
    have ih: "plus_assign_loop this rhs (i + 1) ?st1 =
           Inr (?st1[this := \<lparr>data_mem = take (i + 1) (data_mem (?st1 ! this)) @
                  pointwise_sum (drop (i + 1) (data_mem (?st1 ! this))) (drop (i + 1) (data_mem (?st1 ! rhs)))\<rparr>])"
      using 1 True iy ly by (intro "1.IH") simp_all
    have t: "take (i + 1) ?X1 = take i ?X @ [?X ! i + ?Y ! i]"
      using True by (simp add: take_Suc_conv_app_nth)
    have d: "drop i ?X = ?X ! i # drop (i + 1) ?X" "drop i ?Y = ?Y ! i # drop (i + 1) ?Y"
      using True iy by (simp_all add: Cons_nth_drop_Suc)
    show ?thesis
      unfolding step ih x1 y1 t
      by (simp add: d pointwise_sum_def)
  next
    case False
    then have "i = length ?X" using 1 by simp
    then show ?thesis
      using 1 by (subst plus_assign_loop.simps) (simp add: pointwise_sum_def Vector_eta)
  qed
qed

lemma plus_assign_loop_short:
  assumes "this < length st" "rhs < length st" "this \<noteq> rhs"
    and "length (data_mem (st ! rhs)) < length (data_mem (st ! this))"
    and "i \<le> length (data_mem (st ! rhs))"
  shows "plus_assign_loop this rhs i st = Inl IndexOutOfRange"
  using assms
proof (induction this rhs i st rule: plus_assign_loop.induct)
  case (1 this rhs i st)
  let ?X = "data_mem (st ! this)" and ?Y = "data_mem (st ! rhs)"
  have ix: "i < length ?X" using 1 by simp
  show ?case
  proof (cases "i < length ?Y")
    case True
    let ?st1 = "st[this := \<lparr>data_mem = ?X[i := ?X ! i + ?Y ! i]\<rparr>]"
    have step: "plus_assign_loop this rhs i st = plus_assign_loop this rhs (i + 1) ?st1"
      using 1 True ix by (subst plus_assign_loop.simps) simp
    have "plus_assign_loop this rhs (i + 1) ?st1 = Inl IndexOutOfRange"
      using 1 True ix by (intro "1.IH") simp_all
    then show ?thesis using step by simp
  next
    case False
    then show ?thesis using 1 ix by (subst plus_assign_loop.simps) simp
  qed
qed

lemma operator_plus_assign_closed:
  assumes "this < length st" "rhs < length st"
    and "length (data_mem (st ! this)) \<le> length (data_mem (st ! rhs))"
  shows "operator_plus_assign this rhs st =
           Inr (this, st[this := \<lparr>data_mem =
                  pointwise_sum (data_mem (st ! this)) (data_mem (st ! rhs))\<rparr>])"
  using plus_assign_loop_closed[OF assms, of 0]
  by (simp add: operator_plus_assign_def)

lemma operator_plus_closed:
  assumes "rhs < length st" "length (data_mem lhs) \<le> length (data_mem (st ! rhs))"
  shows "operator_plus lhs rhs st =
           Inr (\<lparr>data_mem = pointwise_sum (data_mem lhs) (data_mem (st ! rhs))\<rparr>, st)"
proof -
  let ?st = "st @ [lhs]"
  have "operator_plus_assign (length st) rhs ?st =
           Inr (length st, ?st[length st := \<lparr>data_mem =
                  pointwise_sum (data_mem (?st ! length st)) (data_mem (?st ! rhs))\<rparr>])"
    using assms by (intro operator_plus_assign_closed) (simp_all add: nth_append)
  then show ?thesis
    using assms by (simp add: operator_plus_def deref_def nth_append)
qed

lemma add_closed:
  assumes "length (data_mem a) \<le> length (data_mem b)"
  shows "add a b = Inr \<lparr>data_mem = pointwise_sum (data_mem a) (data_mem b)\<rparr>"
  using operator_plus_closed[of 0 "[b]" a] assms by (simp add: add_def)

lemma add_short:
  assumes "length (data_mem b) < length (data_mem a)"
  shows "add a b = Inl IndexOutOfRange"
proof -
  have "plus_assign_loop 1 0 0 [b, a] = Inl IndexOutOfRange"
    using assms by (intro plus_assign_loop_short) simp_all
  then show ?thesis by (simp add: add_def operator_plus_def operator_plus_assign_def)
qed

lemma fadd_commute: "fadd x y = fadd y x"
  by (cases x; cases y) (auto simp: add.commute)

section \<open>The loops of mul\<close>

lemma index_in_range: "i < h \<Longrightarrow> j < w \<Longrightarrow> i * w + j < h * (w::nat)"
proof -
  assume a: "i < h" "j < w"
  then have "i * w + j < i * w + w" by simp
  also have "\<dots> = Suc i * w" by simp
  also have "\<dots> \<le> h * w" using a(1) by (intro mult_le_mono1) simp
  finally show ?thesis .
qed

lemma index_unique:
  "j < w \<Longrightarrow> b < w \<Longrightarrow> a * w + b = i * w + j \<longleftrightarrow> a = i \<and> b = (j::nat)"
proof
  assume h: "j < w" "b < w" "a * w + b = i * w + j"
  have "(a * w + b) div w = a" using h(2) by simp
  moreover have "(i * w + j) div w = i" using h(1) by simp
  ultimately have ai: "a = i" using h(3) by metis
  with h show "a = i \<and> b = j" by simp
qed simp

lemma get_in_range:
  "wf_matrix m \<Longrightarrow> i < height m \<Longrightarrow> j < width m \<Longrightarrow> get m i j = Inr (cell m i j)"
  by (simp add: get_def wf_matrix_def cell_def index_in_range)

lemma mul_k_loop_foldl:
  assumes "wf_matrix lhs" "wf_matrix rhs" "width lhs \<le> height rhs"
    and "i < height lhs" "j < width rhs"
  shows "mul_k_loop lhs rhs i j k s =
           Inr (foldl (\<lambda>s k. s + cell lhs i k * cell rhs k j) s [k..<width lhs])"
  using assms
proof (induction lhs rhs i j k s rule: mul_k_loop.induct)
  case (1 lhs rhs i j k s)
  show ?case
  proof (cases "k < width lhs")
    case True
    then have g1: "get lhs i k = Inr (cell lhs i k)"
      using 1 by (simp add: get_in_range)
    have g2: "get rhs k j = Inr (cell rhs k j)"
      using 1 True by (simp add: get_in_range)
    have "mul_k_loop lhs rhs i j k s = mul_k_loop lhs rhs i j (k + 1) (s + cell lhs i k * cell rhs k j)"
      using True g1 g2 by (subst mul_k_loop.simps) (simp add: get_width_def)
    also have "\<dots> = Inr (foldl (\<lambda>s k. s + cell lhs i k * cell rhs k j) (s + cell lhs i k * cell rhs k j) [k + 1..<width lhs])"
      using 1 True g1 g2 by (simp add: get_width_def)
    finally show ?thesis using True by (simp add: upt_conv_Cons)
  next
    case False
    then show ?thesis by (subst mul_k_loop.simps) (simp add: get_width_def)
  qed
qed

lemma mul_j_loop_cells:
  assumes "wf_matrix lhs" "wf_matrix rhs" "width lhs \<le> height rhs" "i < height lhs"
    and "height res = height lhs" "width res = width rhs" "wf_matrix res"
  shows "\<exists>res'. mul_j_loop lhs rhs i j res = Inr res' \<and>
           height res' = height res \<and> width res' = width res \<and> wf_matrix res' \<and>
           (\<forall>a b. a < height res \<longrightarrow> b < width res \<longrightarrow>
              cell res' a b = (if a = i \<and> j \<le> b then dot lhs rhs i b else cell res a b))"
  using assms
proof (induction lhs rhs i j res rule: mul_j_loop.induct)
  case (1 lhs rhs i j res)
  show ?case
  proof (cases "j < width rhs")
    case True
    have k: "mul_k_loop lhs rhs i j 0 0 = Inr (dot lhs rhs i j)"
      using 1 True by (simp add: mul_k_loop_foldl dot_def)
    define res1 where "res1 = res\<lparr>cells := (cells res)[i * width res + j := dot lhs rhs i j]\<rparr>"
    have inr: "i * width res + j < length (cells res)"
      using 1 True by (simp add: wf_matrix_def index_in_range)
    have s: "set_elem res i j (dot lhs rhs i j) = Inr res1"
      using 1 True inr by (simp add: set_elem_def res1_def)
    have r1: "height res1 = height lhs" "width res1 = width rhs" "wf_matrix res1"
      using 1 by (simp_all add: res1_def wf_matrix_def)
    from "1.IH"[OF _ k s] True 1 r1
    obtain res' where r': "mul_j_loop lhs rhs i (j + 1) res1 = Inr res'"
      "height res' = height res1" "width res' = width res1" "wf_matrix res'"
      "\<forall>a b. a < height res1 \<longrightarrow> b < width res1 \<longrightarrow>
              cell res' a b = (if a = i \<and> j + 1 \<le> b then dot lhs rhs i b else cell res1 a b)"
      by (auto simp: get_width_def)
    have step: "mul_j_loop lhs rhs i j res = mul_j_loop lhs rhs i (j + 1) res1"
      using True k s by (subst mul_j_loop.simps) (simp add: get_width_def)
    have c1: "cell res1 a b = (if a = i \<and> b = j then dot lhs rhs i j else cell res a b)"
      if "a < height res" "b < width res" for a b
    proof -
      have "a * width res + b < length (cells res)"
        using that 1 by (simp add: wf_matrix_def index_in_range)
      then show ?thesis
        using that True 1 inr index_unique[of j "width res" b a i]
        by (auto simp: cell_def res1_def nth_list_update)
    qed
    show ?thesis
      using step r' r1 1 c1 by (auto simp: le_Suc_eq Suc_le_eq)
  next
    case False
    then show ?thesis using 1 by (subst mul_j_loop.simps) (auto simp: get_width_def)
  qed
qed

lemma mul_i_loop_cells:
  assumes "wf_matrix lhs" "wf_matrix rhs" "width lhs \<le> height rhs"
    and "height res = height lhs" "width res = width rhs" "wf_matrix res"
  shows "\<exists>res'. mul_i_loop lhs rhs i res = Inr res' \<and>
           height res' = height res \<and> width res' = width res \<and> wf_matrix res' \<and>
           (\<forall>a b. a < height res \<longrightarrow> b < width res \<longrightarrow>
              cell res' a b = (if i \<le> a then dot lhs rhs a b else cell res a b))"
  using assms
proof (induction lhs rhs i res rule: mul_i_loop.induct)
  case (1 lhs rhs i res)
  show ?case
  proof (cases "i < height lhs")
    case True
    from mul_j_loop_cells[OF "1.prems"(1,2,3) True "1.prems"(4,5,6), of 0]
    obtain res1 where r1: "mul_j_loop lhs rhs i 0 res = Inr res1"
      "height res1 = height res" "width res1 = width res" "wf_matrix res1"
      "\<forall>a b. a < height res \<longrightarrow> b < width res \<longrightarrow>
         cell res1 a b = (if a = i then dot lhs rhs i b else cell res a b)"
      by auto
    from "1.IH"[OF _ r1(1)] True 1 r1
    obtain res' where r': "mul_i_loop lhs rhs (i + 1) res1 = Inr res'"
      "height res' = height res1" "width res' = width res1" "wf_matrix res'"
      "\<forall>a b. a < height res1 \<longrightarrow> b < width res1 \<longrightarrow>
         cell res' a b = (if i + 1 \<le> a then dot lhs rhs a b else cell res1 a b)"
      by (auto simp: get_height_def)
    have step: "mul_i_loop lhs rhs i res = mul_i_loop lhs rhs (i + 1) res1"
      using True r1(1) by (subst mul_i_loop.simps) (simp add: get_height_def)
    show ?thesis
      using step r' r1 by (auto simp: le_Suc_eq Suc_le_eq)
  next
    case False
    then show ?thesis using 1 by (subst mul_i_loop.simps) (auto simp: get_height_def)
  qed
qed

lemma wf_Matrix_new: "wf_matrix (Matrix_new h w)"
  by (simp add: wf_matrix_def Matrix_new_def)

lemma mul_result:
  assumes "wf_matrix lhs" "wf_matrix rhs" "width lhs \<le> height rhs"
  shows "\<exists>r. mul lhs rhs = Inr r \<and> height r = height lhs \<and> width r = width rhs \<and>
           wf_matrix r \<and>
           (\<forall>i j. i < height lhs \<longrightarrow> j < width rhs \<longrightarrow> cell r i j = dot lhs rhs i j)"
proof -
  let ?res = "Matrix_new (height lhs) (width rhs) :: 'a Matrix"
  have h: "height ?res = height lhs" "width ?res = width rhs"
    by (simp_all add: Matrix_new_def)
  from mul_i_loop_cells[OF assms h wf_Matrix_new, of 0]
  show ?thesis
    by (auto simp: mul_def get_height_def get_width_def h)
qed

lemma mul_k_loop_out_of_range:
  assumes "wf_matrix lhs" "wf_matrix rhs" "height rhs < width lhs"
    and "i < height lhs" "j < width rhs" "k \<le> height rhs"
  shows "mul_k_loop lhs rhs i j k s = Inl IndexOutOfRange"
  using assms
proof (induction lhs rhs i j k s rule: mul_k_loop.induct)
  case (1 lhs rhs i j k s)
  have kw: "k < width lhs" using 1 by simp
  then have g1: "get lhs i k = Inr (cell lhs i k)"
    using 1 by (simp add: get_in_range)
  show ?case
  proof (cases "k < height rhs")
    case True
    then have g2: "get rhs k j = Inr (cell rhs k j)"
      using 1 by (simp add: get_in_range)
    have "mul_k_loop lhs rhs i j k s = mul_k_loop lhs rhs i j (k + 1) (s + cell lhs i k * cell rhs k j)"
      using kw g1 g2 by (subst mul_k_loop.simps) (simp add: get_width_def)
    also have "\<dots> = Inl IndexOutOfRange"
      using 1 True kw g1 g2 by (simp add: get_width_def)
    finally show ?thesis .
  next
    case False
    then have "get rhs k j = Inl IndexOutOfRange" by (simp add: get_def)
    then show ?thesis using kw g1 by (subst mul_k_loop.simps) (simp add: get_width_def)
  qed
qed

lemma mul_out_of_range:
  assumes "wf_matrix lhs" "wf_matrix rhs" "height rhs < width lhs"
    and "0 < height lhs" "0 < width rhs"
  shows "mul lhs rhs = Inl IndexOutOfRange"
proof -
  have "mul_k_loop lhs rhs 0 0 0 0 = Inl IndexOutOfRange"
    using assms by (simp add: mul_k_loop_out_of_range)
  then have "mul_j_loop lhs rhs 0 0 res = Inl IndexOutOfRange" for res
    using assms by (subst mul_j_loop.simps) (simp add: get_width_def)
  then have "mul_i_loop lhs rhs 0 res = Inl IndexOutOfRange" for res
    using assms by (subst mul_i_loop.simps) (simp add: get_height_def)
  then show ?thesis by (simp add: mul_def)
qed

lemma matrix_eqI:
  fixes a b :: "'a Matrix"
  assumes "wf_matrix a" "wf_matrix b" "height a = height b" "width a = width b"
    and c: "\<And>i j. i < height a \<Longrightarrow> j < width a \<Longrightarrow> cell a i j = cell b i j"
  shows "a = b"
proof -
  have len: "length (cells a) = length (cells b)"
    using assms by (simp add: wf_matrix_def)
  have "cells a ! n = cells b ! n" if "n < length (cells a)" for n
  proof -
    have w: "0 < width a" using that assms(1) by (cases "width a = 0") (simp_all add: wf_matrix_def)
    have "n div width a < height a"
      using that assms(1) w by (simp add: wf_matrix_def less_mult_imp_div_less)
    moreover have "n mod width a < width a" using w by simp
    ultimately have "cell a (n div width a) (n mod width a) = cell b (n div width a) (n mod width a)"
      by (rule c)
    then show ?thesis using assms(4) by (simp add: cell_def)
  qed
  then have "cells a = cells b" using len by (intro nth_equalityI) simp_all
  then show ?thesis using assms(3,4) by (cases a, cases b) simp
qed

lemmas mul_eval = mul_def mul_i_loop.simps mul_j_loop.simps mul_k_loop.simps get_def set_elem_def
      matrix_of_rows_def Matrix_new_def get_height_def get_width_def

section \<open>Properties of vector addition\<close>

lemma fadd_lit: "a + b < 2 ^ 24 \<Longrightarrow> float_of_nat a + float_of_nat b = float_of_nat (a + b)"
  by (simp add: plus_float32_def fadd_small)

lemma nth_pointwise_sum:
  "i < length xs \<Longrightarrow> i < length ys \<Longrightarrow> pointwise_sum xs ys ! i = xs ! i + ys ! i"
  by (simp add: pointwise_sum_def)

lemma length_pointwise_sum: "length (pointwise_sum xs ys) = min (length xs) (length ys)"
  by (simp add: pointwise_sum_def)

text \<open>
  C2.  For vectors \<open>a\<close> and \<open>b\<close> of equal length, \<open>add a b\<close> returns a vector of that
  length whose element \<open>i\<close> is the binary32 sum of \<open>a[i]\<close> and \<open>b[i]\<close>, for every index
  \<open>i\<close>; and \<open>add [1,2,3] [4,5,6] = [5,7,9]\<close>.
\<close>

theorem add_elementwise:
  "(length (data a) = length (data b) \<longrightarrow>
      (\<exists>r. add a b = Inr r \<and> length (data r) = length (data a) \<and>
           (\<forall>i<length (data a). data r ! i = fadd (data a ! i) (data b ! i))))
   \<and> add (Vector_init [float_of_nat 1, float_of_nat 2, float_of_nat 3])
          (Vector_init [float_of_nat 4, float_of_nat 5, float_of_nat 6])
       = Inr (Vector_init [float_of_nat 5, float_of_nat 7, float_of_nat 9])"
proof
  show "length (data a) = length (data b) \<longrightarrow>
      (\<exists>r. add a b = Inr r \<and> length (data r) = length (data a) \<and>
           (\<forall>i<length (data a). data r ! i = fadd (data a ! i) (data b ! i)))"
    by (simp add: add_closed data_def length_pointwise_sum nth_pointwise_sum plus_float32_def)
  show "add (Vector_init [float_of_nat 1, float_of_nat 2, float_of_nat 3])
          (Vector_init [float_of_nat 4, float_of_nat 5, float_of_nat 6])
       = Inr (Vector_init [float_of_nat 5, float_of_nat 7, float_of_nat 9])"
    by (simp add: add_closed Vector_init_def pointwise_sum_def fadd_lit)
qed

theorem add_elementwise_witness:
  "length (data (Vector_init [float_of_nat 1, float_of_nat 2]))
     = length (data (Vector_init [float_of_nat 10, float_of_nat 20])) \<and>
   (\<exists>r. add (Vector_init [float_of_nat 1, float_of_nat 2])
             (Vector_init [float_of_nat 10, float_of_nat 20]) = Inr r \<and>
        length (data r) = 2 \<and>
        data r ! 0 = float_of_nat 11 \<and> data r ! 1 = float_of_nat 22)"
proof -
  let ?a = "Vector_init [float_of_nat 1, float_of_nat 2]"
  let ?b = "Vector_init [float_of_nat 10, float_of_nat 20]"
  have len: "length (data ?a) = length (data ?b)"
    by (simp add: data_def Vector_init_def)
  from add_elementwise[of ?a ?b] len
  obtain r where r: "add ?a ?b = Inr r" "length (data r) = length (data ?a)"
    "\<forall>i<length (data ?a). data r ! i = fadd (data ?a ! i) (data ?b ! i)"
    by blast
  have l2: "length (data ?a) = 2" by (simp add: data_def Vector_init_def)
  have "data r ! 0 = fadd (data ?a ! 0) (data ?b ! 0)" using r(3) l2 by simp
  then have r0: "data r ! 0 = float_of_nat 11"
    by (simp add: data_def Vector_init_def fadd_small)
  have "data r ! 1 = fadd (data ?a ! 1) (data ?b ! 1)" using r(3) l2 by simp
  then have r1: "data r ! 1 = float_of_nat 22"
    by (simp add: data_def Vector_init_def fadd_small)
  show ?thesis using len r(1,2) l2 r0 r1 by simp
qed

lemma feq_refl: "x \<noteq> NaN \<Longrightarrow> feq x x"
  by (cases x) simp_all

lemma pointwise_sum_commute:
  fixes xs ys :: "float32 list"
  assumes "length xs = length ys"
  shows "pointwise_sum xs ys = pointwise_sum ys xs"
  using assms
  by (intro nth_equalityI)
     (simp_all add: length_pointwise_sum nth_pointwise_sum plus_float32_def fadd_commute)

text \<open>
  C7 (as stated, refuted).  The sum of \<open>+\<infinity>\<close> and \<open>-\<infinity>\<close> is NaN in either order, and NaN
  does not compare equal to NaN: \<open>add [+\<infinity>] [-\<infinity>]\<close> and \<open>add [-\<infinity>] [+\<infinity>]\<close> are both
  \<open>[NaN]\<close>, and \<open>[NaN] == [NaN]\<close> is false.
\<close>

theorem add_commutative_counterexample:
  "add (Vector_init [Infinity False]) (Vector_init [Infinity True]) = Inr (Vector_init [NaN])
   \<and> add (Vector_init [Infinity True]) (Vector_init [Infinity False]) = Inr (Vector_init [NaN])
   \<and> \<not> vector_eq (Vector_init [NaN]) (Vector_init [NaN])"
  by (simp add: add_closed Vector_init_def pointwise_sum_def plus_float32_def vector_eq_def data_def)

text \<open>
  C7 (amended).  For vectors \<open>a\<close> and \<open>b\<close> of equal length in which no element sum
  \<open>a[i] + b[i]\<close> is NaN, \<open>add a b\<close> and \<open>add b a\<close> return the same vector, and the two
  results compare equal with \<open>==\<close> element by element.
\<close>

theorem add_commutative_no_nan:
  fixes a b :: "float32 Vector"
  assumes "length (data a) = length (data b)"
    and "\<forall>i<length (data a). fadd (data a ! i) (data b ! i) \<noteq> NaN"
  shows "\<exists>r s. add a b = Inr r \<and> add b a = Inr s \<and> r = s \<and> vector_eq r s"
proof -
  let ?r = "\<lparr>data_mem = pointwise_sum (data_mem a) (data_mem b)\<rparr>"
  have ab: "add a b = Inr ?r" using assms(1) by (simp add: add_closed data_def)
  have "add b a = Inr \<lparr>data_mem = pointwise_sum (data_mem b) (data_mem a)\<rparr>"
    using assms(1) by (simp add: add_closed data_def)
  then have ba: "add b a = Inr ?r"
    using assms(1) pointwise_sum_commute[of "data_mem a" "data_mem b"] by (simp add: data_def)
  have "feq (data ?r ! i) (data ?r ! i)" if "i < length (data ?r)" for i
  proof -
    have i: "i < length (data a)" "i < length (data b)"
      using that assms(1) by (simp_all add: data_def length_pointwise_sum)
    then have "data ?r ! i = fadd (data a ! i) (data b ! i)"
      by (simp add: data_def nth_pointwise_sum plus_float32_def)
    then show ?thesis using assms(2) i by (simp add: feq_refl)
  qed
  then have "vector_eq ?r ?r"
    by (simp add: vector_eq_def list_all2_conv_all_nth)
  then show ?thesis using ab ba by blast
qed

theorem add_commutative_no_nan_witness:
  "length (data (Vector_init [Infinity False, Finite True 0]))
     = length (data (Vector_init [Infinity False, Finite False 0]))
   \<and> fadd (Infinity False) (Infinity False) \<noteq> NaN
   \<and> fadd (Finite True 0) (Finite False 0) \<noteq> NaN
   \<and> (\<exists>r s. add (Vector_init [Infinity False, Finite True 0])
                 (Vector_init [Infinity False, Finite False 0]) = Inr r
            \<and> add (Vector_init [Infinity False, Finite False 0])
                  (Vector_init [Infinity False, Finite True 0]) = Inr s
            \<and> r = s \<and> vector_eq r s)"
proof -
  let ?a = "Vector_init [Infinity False, Finite True 0]"
  let ?b = "Vector_init [Infinity False, Finite False 0]"
  have len: "length (data ?a) = length (data ?b)"
    by (simp add: data_def Vector_init_def)
  have nn: "\<forall>i<length (data ?a). fadd (data ?a ! i) (data ?b ! i) \<noteq> NaN"
    by (simp add: data_def Vector_init_def All_less_Suc)
  have v: "fadd (Infinity False) (Infinity False) \<noteq> NaN"
    "fadd (Finite True 0) (Finite False 0) \<noteq> NaN"
    by simp_all
  show ?thesis using len v add_commutative_no_nan[OF len nn] by blast
qed

text \<open>
  C9.  For two live vectors \<open>a\<close> and \<open>b\<close> of equal length, \<open>a + b\<close> returns the
  elementwise sum and leaves every object, \<open>a\<close> and \<open>b\<close> among them, as it was;
  \<open>a += b\<close> replaces the contents of \<open>a\<close> by the elementwise sum, changes no other
  object and returns the reference to \<open>a\<close> itself.
\<close>

theorem plus_frame:
  assumes "a < length st" "b < length st"
    and "length (data (st ! a)) = length (data (st ! b))"
  shows "operator_plus (st ! a) b st =
           Inr (Vector_init (pointwise_sum (data (st ! a)) (data (st ! b))), st)
         \<and> operator_plus_assign a b st =
           Inr (a, st[a := Vector_init (pointwise_sum (data (st ! a)) (data (st ! b)))])"
  using assms
  by (simp add: operator_plus_closed operator_plus_assign_closed data_def Vector_init_def)

theorem plus_frame_witness:
  "(0::nat) < length [Vector_init [float_of_nat 1, float_of_nat 2], Vector_init [float_of_nat 3, float_of_nat 4]]
   \<and> (1::nat) < length [Vector_init [float_of_nat 1, float_of_nat 2], Vector_init [float_of_nat 3, float_of_nat 4]]
   \<and> operator_plus (Vector_init [float_of_nat 1, float_of_nat 2]) 1
        [Vector_init [float_of_nat 1, float_of_nat 2], Vector_init [float_of_nat 3, float_of_nat 4]]
      = Inr (Vector_init [float_of_nat 4, float_of_nat 6],
             [Vector_init [float_of_nat 1, float_of_nat 2], Vector_init [float_of_nat 3, float_of_nat 4]])
   \<and> operator_plus_assign 0 1
        [Vector_init [float_of_nat 1, float_of_nat 2], Vector_init [float_of_nat 3, float_of_nat 4]]
      = Inr (0, [Vector_init [float_of_nat 4, float_of_nat 6], Vector_init [float_of_nat 3, float_of_nat 4]])"
proof -
  let ?st = "[Vector_init [float_of_nat 1, float_of_nat 2], Vector_init [float_of_nat 3, float_of_nat 4]]"
  have h: "0 < length ?st" "1 < length ?st" "length (data (?st ! 0)) = length (data (?st ! 1))"
    by (simp_all add: data_def Vector_init_def)
  from plus_frame[OF h] show ?thesis
    by (simp add: data_def Vector_init_def pointwise_sum_def fadd_lit)
qed

text \<open>
  C10.  When \<open>a\<close> is no longer than \<open>b\<close>, \<open>add a b\<close> makes no access outside either
  operand (it returns a result, not \<open>IndexOutOfRange\<close>) and its result has the length
  of \<open>a\<close>; adding two vectors of length zero gives a vector of length zero.
\<close>

theorem add_in_bounds:
  "(length (data a) \<le> length (data b) \<longrightarrow>
      (\<exists>r. add a b = Inr r \<and> length (data r) = length (data a)))
   \<and> add (Vector_init []) (Vector_init []) = Inr (Vector_init [])"
  by (simp add: add_closed data_def length_pointwise_sum Vector_init_def pointwise_sum_def)

theorem add_in_bounds_witness:
  "length (data (Vector_init [float_of_nat 5])) \<le> length (data (Vector_init [float_of_nat 2, float_of_nat 3]))
   \<and> add (Vector_init [float_of_nat 5]) (Vector_init [float_of_nat 2, float_of_nat 3])
       = Inr (Vector_init [float_of_nat 7])"
proof -
  let ?a = "Vector_init [float_of_nat 5]" and ?b = "Vector_init [float_of_nat 2, float_of_nat 3]"
  have le: "length (data ?a) \<le> length (data ?b)" by (simp add: data_def Vector_init_def)
  from add_in_bounds[of ?a ?b] le
  obtain r where r: "add ?a ?b = Inr r" by blast
  moreover have "add ?a ?b = Inr (Vector_init [float_of_nat 7])"
    by (simp add: add_closed Vector_init_def pointwise_sum_def fadd_lit)
  ultimately show ?thesis using le by simp
qed

section \<open>Special values and the identity and zero matrices\<close>

lemma fadd_NaN_right [simp]: "fadd x NaN = NaN"
  by (cases x) simp_all

lemma fmul_NaN_right [simp]: "fmul x NaN = NaN"
  by (cases x) simp_all

lemma float_of_nat_exact: "exact_nat n \<Longrightarrow> float_of_nat n = Finite False (n * 2 ^ 149)"
  by (simp add: exact_nat_def float_of_nat_def round_float_exact0 del: power_numeral)

lemma fmul_inf_nat:
  "exact_nat n \<Longrightarrow> fmul (Infinity s) (float_of_nat n) = (if n = 0 then NaN else Infinity s)"
  by (simp add: float_of_nat_exact)

lemma fadd_inf_nat:
  "exact_nat n \<Longrightarrow> fadd (Infinity s) (float_of_nat n) = Infinity s"
  "exact_nat n \<Longrightarrow> fadd (float_of_nat n) (Infinity s) = Infinity s"
  by (simp_all add: float_of_nat_exact)

lemmas float_special_arith = one_lit fmul_inf_nat fadd_inf_nat

lemma cell_in_set:
  "wf_matrix m \<Longrightarrow> i < height m \<Longrightarrow> j < width m \<Longrightarrow> cell m i j \<in> set (cells m)"
  by (simp add: cell_def wf_matrix_def index_in_range)

lemma cell_finite:
  "wf_matrix m \<Longrightarrow> all_finite m \<Longrightarrow> i < height m \<Longrightarrow> j < width m \<Longrightarrow> is_finite (cell m i j)"
  using cell_in_set[of m i j] by (simp add: all_finite_def list_all_iff)

lemma wf_identity_matrix: "wf_matrix (identity_matrix k)"
  by (simp add: wf_matrix_def identity_matrix_def)

lemma cell_identity_matrix:
  "i < k \<Longrightarrow> j < k \<Longrightarrow> cell (identity_matrix k) i j = (if i = j then 1 else 0)"
  by (simp add: cell_def identity_matrix_def index_in_range)

lemma wf_zero_matrix: "wf_matrix (zero_matrix h w)"
  by (simp add: wf_matrix_def zero_matrix_def)

lemma cell_zero_matrix: "i < h \<Longrightarrow> j < w \<Longrightarrow> cell (zero_matrix h w) i j = 0"
  by (simp add: cell_def zero_matrix_def index_in_range)

lemma is_zero_pos_zero: "is_zero z \<Longrightarrow> pos_zero z = Finite False 0"
  by (auto simp: is_zero_def pos_zero_def)

lemma is_finite_zero: "is_zero z \<Longrightarrow> is_finite z"
  by (auto simp: is_zero_def)

lemma dot_identity_prefix:
  fixes A :: "float32 Matrix"
  assumes "wf_matrix A" "all_finite A" "i < height A" "j < width A" "n \<le> width A"
  shows "foldl (\<lambda>s k. s + cell A i k * cell (identity_matrix (width A)) k j) 0 [0..<n]
           = (if j < n then pos_zero (cell A i j) else 0)"
  using assms(5)
proof (induction n)
  case 0
  then show ?case by simp
next
  case (Suc n)
  then have n: "n < width A" by simp
  have fin: "is_finite (cell A i n)" "is_finite (cell A i j)"
    using assms n by (simp_all add: cell_finite)
  have ih: "foldl (\<lambda>s k. s + cell A i k * cell (identity_matrix (width A)) k j) 0 [0..<n]
           = (if j < n then pos_zero (cell A i j) else 0)"
    using Suc by simp
  show ?case
  proof (cases "n = j")
    case True
    have "cell A i n * cell (identity_matrix (width A)) n j = cell A i j"
      using True n fin by (simp add: cell_identity_matrix times_float32_def fmul_one)
    then show ?thesis
      using True ih fin by (simp add: plus_float32_def zero_float32_def fadd_zero_left)
  next
    case False
    have z: "is_zero (cell A i n * cell (identity_matrix (width A)) n j)"
      using False n assms(4) fin
      by (simp add: cell_identity_matrix times_float32_def) (rule fmul_zero, simp_all add: is_zero_def zero_float32_def)
    show ?thesis
    proof (cases "j < n")
      case True
      then show ?thesis
        using ih z fin by (simp add: plus_float32_def fadd_zero_right)
    next
      case False
      with \<open>n \<noteq> j\<close> have "\<not> j < Suc n" by simp
      then show ?thesis
        using ih z False
        by (simp add: plus_float32_def zero_float32_def fadd_zero_left is_finite_zero is_zero_pos_zero)
    qed
  qed
qed

lemma dot_identity:
  fixes A :: "float32 Matrix"
  assumes "wf_matrix A" "all_finite A" "i < height A" "j < width A"
  shows "dot A (identity_matrix (width A)) i j = pos_zero (cell A i j)"
  using dot_identity_prefix[OF assms, of "width A"] assms(4) by (simp add: dot_def)

lemma dot_zero_prefix:
  fixes A Z :: "float32 Matrix"
  assumes "wf_matrix A" "all_finite A" "wf_matrix Z" "list_all is_zero (cells Z)"
    and "width A \<le> height Z" "i < height A" "j < width Z" "n \<le> width A"
  shows "foldl (\<lambda>s k. s + cell A i k * cell Z k j) 0 [0..<n] = 0"
  using assms(8)
proof (induction n)
  case 0
  then show ?case by simp
next
  case (Suc n)
  then have n: "n < width A" by simp
  have "cell Z n j \<in> set (cells Z)"
    using assms n by (intro cell_in_set) simp_all
  then have "is_zero (cell Z n j)" using assms(4) by (simp add: list_all_iff)
  moreover have "is_finite (cell A i n)" using assms n by (simp add: cell_finite)
  ultimately have z: "is_zero (cell A i n * cell Z n j)"
    by (simp add: times_float32_def fmul_zero)
  show ?case
    using Suc z
    by (simp add: plus_float32_def zero_float32_def fadd_zero_left is_finite_zero is_zero_pos_zero)
qed

lemma is_finite_float_of_nat: "exact_nat n \<Longrightarrow> is_finite (float_of_nat n)"
  by (simp add: float_of_nat_exact exact_nat_def)


section \<open>Properties of mul\<close>

text \<open>
  C1.  For \<open>lhs\<close> of shape m by k and \<open>rhs\<close> of shape k by n, \<open>mul lhs rhs\<close> returns a
  matrix of shape m by n whose cell \<open>(i, j)\<close> is the sum of \<open>lhs[i,k2] * rhs[k2,j]\<close> over
  \<open>k2 < k\<close>, in binary32 arithmetic and accumulated in loop order; and the product of
  \<open>[[1,2],[3,4]]\<close> and \<open>[[5,6],[7,8]]\<close> is \<open>[[19,22],[43,50]]\<close>.
\<close>

theorem mul_dot_products:
  "(wf_matrix lhs \<and> wf_matrix rhs \<and> width lhs = height rhs \<longrightarrow>
      (\<exists>r. mul lhs rhs = Inr r \<and> height r = height lhs \<and> width r = width rhs \<and>
           (\<forall>i<height lhs. \<forall>j<width rhs.
              get r i j =
                Inr (foldl (\<lambda>s k2. fadd s (fmul (cell lhs i k2) (cell rhs k2 j)))
                       (Finite False 0) [0..<width lhs]))))
   \<and> mul (matrix_of_rows [[float_of_nat 1, float_of_nat 2], [float_of_nat 3, float_of_nat 4]])
         (matrix_of_rows [[float_of_nat 5, float_of_nat 6], [float_of_nat 7, float_of_nat 8]])
       = Inr (matrix_of_rows [[float_of_nat 19, float_of_nat 22], [float_of_nat 43, float_of_nat 50]])"
proof (intro conjI impI)
  assume a: "wf_matrix lhs \<and> wf_matrix rhs \<and> width lhs = height rhs"
  then obtain r where r: "mul lhs rhs = Inr r" "height r = height lhs" "width r = width rhs"
    "wf_matrix r" "\<forall>i j. i < height lhs \<longrightarrow> j < width rhs \<longrightarrow> cell r i j = dot lhs rhs i j"
    using mul_result[of lhs rhs] by auto
  have "get r i j = Inr (foldl (\<lambda>s k2. fadd s (fmul (cell lhs i k2) (cell rhs k2 j)))
                       (Finite False 0) [0..<width lhs])"
    if "i < height lhs" "j < width rhs" for i j
    using that r
    by (simp add: get_in_range dot_def plus_float32_def times_float32_def zero_float32_def)
  then show "\<exists>r. mul lhs rhs = Inr r \<and> height r = height lhs \<and> width r = width rhs \<and>
           (\<forall>i<height lhs. \<forall>j<width rhs.
              get r i j =
                Inr (foldl (\<lambda>s k2. fadd s (fmul (cell lhs i k2) (cell rhs k2 j)))
                       (Finite False 0) [0..<width lhs]))"
    using r by auto
next
  show "mul (matrix_of_rows [[float_of_nat 1, float_of_nat 2], [float_of_nat 3, float_of_nat 4]])
         (matrix_of_rows [[float_of_nat 5, float_of_nat 6], [float_of_nat 7, float_of_nat 8]])
       = Inr (matrix_of_rows [[float_of_nat 19, float_of_nat 22], [float_of_nat 43, float_of_nat 50]])"
    by (simp add: mul_eval float_lit_arith)
qed

theorem mul_dot_products_witness:
  "wf_matrix (matrix_of_rows [[float_of_nat 2, float_of_nat 3]])
   \<and> wf_matrix (matrix_of_rows [[float_of_nat 4], [float_of_nat 5]])
   \<and> width (matrix_of_rows [[float_of_nat 2, float_of_nat 3]])
       = height (matrix_of_rows [[float_of_nat 4], [float_of_nat 5]])
   \<and> (\<exists>r. mul (matrix_of_rows [[float_of_nat 2, float_of_nat 3]])
               (matrix_of_rows [[float_of_nat 4], [float_of_nat 5]]) = Inr r
          \<and> height r = 1 \<and> width r = 1 \<and> get r 0 0 = Inr (float_of_nat 23))"
proof -
  let ?L = "matrix_of_rows [[float_of_nat 2, float_of_nat 3]]"
  let ?R = "matrix_of_rows [[float_of_nat 4], [float_of_nat 5]]"
  have h: "wf_matrix ?L \<and> wf_matrix ?R \<and> width ?L = height ?R"
    by (simp add: wf_matrix_def matrix_of_rows_def)
  have hw: "height ?L = 1" "width ?R = 1" "width ?L = 2"
    by (simp_all add: matrix_of_rows_def)
  from mul_dot_products[of ?L ?R] h
  obtain r where r: "mul ?L ?R = Inr r" "height r = height ?L" "width r = width ?R"
    "\<forall>i<height ?L. \<forall>j<width ?R.
       get r i j = Inr (foldl (\<lambda>s k2. fadd s (fmul (cell ?L i k2) (cell ?R k2 j)))
                          (Finite False 0) [0..<width ?L])"
    by blast
  have "get r 0 0 = Inr (foldl (\<lambda>s k2. fadd s (fmul (cell ?L 0 k2) (cell ?R k2 0)))
                          (Finite False 0) [0..<width ?L])"
    using r(4) hw by simp
  also have "\<dots> = Inr (float_of_nat 23)"
    by (simp add: hw upt_rec cell_def matrix_of_rows_def float_lit_arith zero_float32_def[symmetric])
  finally show ?thesis using h r(1,2,3) hw by simp
qed

text \<open>
  C3 (as stated, refuted).  A 1 by 1 matrix times a 2 by 1 matrix has mismatched inner
  dimensions, and \<open>mul\<close> returns a result.
\<close>

theorem mul_mismatch_counterexample:
  "width (matrix_of_rows [[float_of_nat 2]])
     \<noteq> height (matrix_of_rows [[float_of_nat 3], [float_of_nat 4]])
   \<and> mul (matrix_of_rows [[float_of_nat 2]]) (matrix_of_rows [[float_of_nat 3], [float_of_nat 4]])
       = Inr (matrix_of_rows [[float_of_nat 6]])"
  by (simp add: mul_eval float_lit_arith)

text \<open>
  C3 (amended).  \<open>mul\<close> does not compare the inner dimensions.  When \<open>lhs\<close> is narrower
  than \<open>rhs\<close> is high it returns the matrix of the dot products of the rows of \<open>lhs\<close>
  with the first \<open>width lhs\<close> entries of the columns of \<open>rhs\<close>.  When \<open>lhs\<close> is wider
  than \<open>rhs\<close> is high and the result has a cell, it reads \<open>rhs\<close> outside its rows, which
  the reference leaves undefined.
\<close>

theorem mul_unchecked_dimensions:
  fixes lhs rhs :: "float32 Matrix"
  assumes "wf_matrix lhs" "wf_matrix rhs" "width lhs \<noteq> height rhs"
  shows "(width lhs < height rhs \<longrightarrow>
            (\<exists>r. mul lhs rhs = Inr r \<and> height r = height lhs \<and> width r = width rhs \<and>
                 (\<forall>i<height lhs. \<forall>j<width rhs. get r i j = Inr (dot lhs rhs i j))))
       \<and> (height rhs < width lhs \<and> 0 < height lhs \<and> 0 < width rhs \<longrightarrow>
            mul lhs rhs = Inl IndexOutOfRange)"
proof (intro conjI impI)
  assume "width lhs < height rhs"
  then obtain r where r: "mul lhs rhs = Inr r" "height r = height lhs" "width r = width rhs"
    "wf_matrix r" "\<forall>i j. i < height lhs \<longrightarrow> j < width rhs \<longrightarrow> cell r i j = dot lhs rhs i j"
    using mul_result[of lhs rhs] assms by auto
  then show "\<exists>r. mul lhs rhs = Inr r \<and> height r = height lhs \<and> width r = width rhs \<and>
                 (\<forall>i<height lhs. \<forall>j<width rhs. get r i j = Inr (dot lhs rhs i j))"
    by (auto simp: get_in_range)
next
  assume "height rhs < width lhs \<and> 0 < height lhs \<and> 0 < width rhs"
  then show "mul lhs rhs = Inl IndexOutOfRange"
    using assms by (simp add: mul_out_of_range)
qed

theorem mul_unchecked_dimensions_witness:
  "(\<exists>r. mul (matrix_of_rows [[float_of_nat 2]]) (matrix_of_rows [[float_of_nat 3], [float_of_nat 4]]) = Inr r
        \<and> height r = 1 \<and> width r = 1
        \<and> get r 0 0 = Inr (dot (matrix_of_rows [[float_of_nat 2]])
                                (matrix_of_rows [[float_of_nat 3], [float_of_nat 4]]) 0 0))
   \<and> mul (matrix_of_rows [[float_of_nat 2, float_of_nat 3]]) (matrix_of_rows [[float_of_nat 4]])
       = Inl IndexOutOfRange"
proof -
  let ?A = "matrix_of_rows [[float_of_nat 2]]"
  let ?B = "matrix_of_rows [[float_of_nat 3], [float_of_nat 4]]"
  let ?C = "matrix_of_rows [[float_of_nat 2, float_of_nat 3]]"
  let ?D = "matrix_of_rows [[float_of_nat 4]]"
  have ab: "wf_matrix ?A" "wf_matrix ?B" "width ?A \<noteq> height ?B" "width ?A < height ?B"
    "height ?A = 1" "width ?B = 1"
    by (simp_all add: wf_matrix_def matrix_of_rows_def)
  have cd: "wf_matrix ?C" "wf_matrix ?D" "width ?C \<noteq> height ?D"
    "height ?D < width ?C \<and> 0 < height ?C \<and> 0 < width ?D"
    by (simp_all add: wf_matrix_def matrix_of_rows_def)
  from mul_unchecked_dimensions[OF ab(1,2,3)] ab(4,5,6)
  have 1: "\<exists>r. mul ?A ?B = Inr r \<and> height r = 1 \<and> width r = 1 \<and> get r 0 0 = Inr (dot ?A ?B 0 0)"
    by auto
  from mul_unchecked_dimensions[OF cd(1,2,3)] cd(4)
  have 2: "mul ?C ?D = Inl IndexOutOfRange" by blast
  show ?thesis using 1 2 by blast
qed

text \<open>
  C5 (as stated, refuted).  With an infinite entry in a row, the other cells of that row
  of the product with the identity are NaN: \<open>[[\<infinity>, 1]]\<close> times the 2 by 2 identity is
  \<open>[[\<infinity>, NaN]]\<close>, and NaN does not compare equal to \<open>1\<close>.
\<close>

theorem mul_identity_counterexample:
  "mul (matrix_of_rows [[Infinity False, float_of_nat 1]]) (identity_matrix 2)
     = Inr (matrix_of_rows [[Infinity False, NaN]])
   \<and> \<not> feq NaN (float_of_nat 1)"
proof -
  have i2: "[0..<2 * 2] = [0, 1, 2, 3]" by (simp add: upt_rec)
  have r2: "replicate 2 x = [x, x]" for x :: float32 by (simp add: numeral_2_eq_2)
  show ?thesis
    by (simp add: mul_eval identity_matrix_def i2 r2 float_special_arith float_lit_arith)
qed

text \<open>
  C6 (as stated, refuted).  An infinite entry times zero is NaN: \<open>[[\<infinity>]]\<close> times the
  1 by 1 zero matrix is \<open>[[NaN]]\<close>.
\<close>

theorem mul_zero_counterexample:
  "mul (matrix_of_rows [[Infinity False]]) (zero_matrix 1 1) = Inr (matrix_of_rows [[NaN]])
   \<and> matrix_of_rows [[NaN]] \<noteq> (zero_matrix 1 1 :: float32 Matrix)"
proof
  show "mul (matrix_of_rows [[Infinity False]]) (zero_matrix 1 1) = Inr (matrix_of_rows [[NaN]])"
    by (simp add: mul_eval zero_matrix_def float_special_arith float_lit_arith)
  show "matrix_of_rows [[NaN]] \<noteq> (zero_matrix 1 1 :: float32 Matrix)"
    by (simp add: matrix_of_rows_def zero_matrix_def zero_float32_def)
qed

text \<open>
  C5 (amended).  For a matrix \<open>A\<close> whose entries are all finite, the product of \<open>A\<close> with
  the identity matrix of its width has the shape of \<open>A\<close>, and each of its cells is the
  cell of \<open>A\<close> with \<open>-0.0\<close> replaced by \<open>+0.0\<close>, which compares equal to the cell of \<open>A\<close>.
\<close>

theorem mul_identity_finite:
  assumes "wf_matrix A" "all_finite A"
  shows "\<exists>r. mul A (identity_matrix (width A)) = Inr r \<and>
             height r = height A \<and> width r = width A \<and>
             (\<forall>i<height A. \<forall>j<width A.
                get r i j = Inr (pos_zero (cell A i j)) \<and>
                feq (pos_zero (cell A i j)) (cell A i j))"
proof -
  let ?I = "identity_matrix (width A) :: float32 Matrix"
  have "width A \<le> height ?I" by (simp add: identity_matrix_def)
  from mul_result[OF assms(1) wf_identity_matrix this]
  obtain r where r: "mul A ?I = Inr r" "height r = height A" "width r = width ?I"
    "wf_matrix r" "\<forall>i j. i < height A \<longrightarrow> j < width ?I \<longrightarrow> cell r i j = dot A ?I i j"
    by auto
  have w: "width ?I = width A" by (simp add: identity_matrix_def)
  have "get r i j = Inr (pos_zero (cell A i j)) \<and> feq (pos_zero (cell A i j)) (cell A i j)"
    if "i < height A" "j < width A" for i j
    using that r w assms
    by (simp add: get_in_range dot_identity feq_pos_zero cell_finite)
  then show ?thesis using r w by auto
qed

theorem mul_identity_finite_witness:
  "wf_matrix (matrix_of_rows [[float_of_nat 2, Finite True 0], [float_of_nat 3, float_of_nat 4]])
   \<and> all_finite (matrix_of_rows [[float_of_nat 2, Finite True 0], [float_of_nat 3, float_of_nat 4]])
   \<and> (\<exists>r. mul (matrix_of_rows [[float_of_nat 2, Finite True 0], [float_of_nat 3, float_of_nat 4]])
               (identity_matrix 2) = Inr r
          \<and> get r 0 0 = Inr (float_of_nat 2) \<and> get r 0 1 = Inr (Finite False 0)
          \<and> get r 1 0 = Inr (float_of_nat 3) \<and> get r 1 1 = Inr (float_of_nat 4))"
proof -
  let ?A = "matrix_of_rows [[float_of_nat 2, Finite True 0], [float_of_nat 3, float_of_nat 4]]"
  have wf: "wf_matrix ?A" by (simp add: wf_matrix_def matrix_of_rows_def)
  have fin: "all_finite ?A"
    by (simp add: all_finite_def matrix_of_rows_def is_finite_float_of_nat exact_nat_iff floorlog_2_steps)
  have hw: "height ?A = 2" "width ?A = 2" by (simp_all add: matrix_of_rows_def)
  have c: "cell ?A 0 0 = float_of_nat 2" "cell ?A 0 1 = Finite True 0"
    "cell ?A 1 0 = float_of_nat 3" "cell ?A 1 1 = float_of_nat 4"
    by (simp_all add: cell_def matrix_of_rows_def)
  have nz: "float_of_nat 2 \<noteq> Finite True 0" "float_of_nat 3 \<noteq> Finite True 0"
    "float_of_nat 4 \<noteq> Finite True 0"
    by (simp_all add: float_of_nat_small)
  from mul_identity_finite[OF wf fin]
  obtain r where r: "mul ?A (identity_matrix 2) = Inr r"
    "\<forall>i<2. \<forall>j<2. get r i j = Inr (pos_zero (cell ?A i j))"
    unfolding hw by blast
  have "get r 0 0 = Inr (pos_zero (cell ?A 0 0))" "get r 0 1 = Inr (pos_zero (cell ?A 0 1))"
    "get r 1 0 = Inr (pos_zero (cell ?A 1 0))" "get r 1 1 = Inr (pos_zero (cell ?A 1 1))"
    using r(2) by simp_all
  then have "get r 0 0 = Inr (float_of_nat 2)" "get r 0 1 = Inr (Finite False 0)"
    "get r 1 0 = Inr (float_of_nat 3)" "get r 1 1 = Inr (float_of_nat 4)"
    unfolding c using nz by (simp_all add: pos_zero_def)
  then show ?thesis using wf fin r(1) by blast
qed

text \<open>
  C6 (amended).  For a matrix \<open>A\<close> of shape m by k whose entries are all finite and a
  matrix \<open>Z\<close> of shape k by n whose entries are all zero (of either sign), the product
  is the m by n matrix whose entries are all \<open>+0.0\<close>.
\<close>

theorem mul_zero_finite:
  assumes "wf_matrix A" "all_finite A"
    and "wf_matrix Z" "height Z = width A" "list_all is_zero (cells Z)"
  shows "mul A Z = Inr (zero_matrix (height A) (width Z))"
proof -
  have le: "width A \<le> height Z" using assms(4) by simp
  from mul_result[OF assms(1,3) le]
  obtain r where r: "mul A Z = Inr r" "height r = height A" "width r = width Z"
    "wf_matrix r" "\<forall>i j. i < height A \<longrightarrow> j < width Z \<longrightarrow> cell r i j = dot A Z i j"
    by auto
  have "r = zero_matrix (height A) (width Z)"
  proof (rule matrix_eqI)
    show "wf_matrix r" by (rule r(4))
    show "wf_matrix (zero_matrix (height A) (width Z) :: float32 Matrix)" by (rule wf_zero_matrix)
    show "height r = height (zero_matrix (height A) (width Z) :: float32 Matrix)"
      using r(2) by (simp add: zero_matrix_def)
    show "width r = width (zero_matrix (height A) (width Z) :: float32 Matrix)"
      using r(3) by (simp add: zero_matrix_def)
    fix i j assume ij: "i < height r" "j < width r"
    then have "cell r i j = dot A Z i j" using r by simp
    also have "\<dots> = 0"
      unfolding dot_def using assms le ij r(2,3)
      by (intro dot_zero_prefix) simp_all
    finally show "cell r i j = cell (zero_matrix (height A) (width Z)) i j"
      using ij r(2,3) by (simp add: cell_zero_matrix)
  qed
  then show ?thesis using r(1) by simp
qed

theorem mul_zero_finite_witness:
  "wf_matrix (matrix_of_rows [[float_of_nat 2, float_of_nat 3]])
   \<and> all_finite (matrix_of_rows [[float_of_nat 2, float_of_nat 3]])
   \<and> wf_matrix (matrix_of_rows [[Finite False 0], [Finite True 0]])
   \<and> height (matrix_of_rows [[Finite False 0], [Finite True 0]])
       = width (matrix_of_rows [[float_of_nat 2, float_of_nat 3]])
   \<and> list_all is_zero (cells (matrix_of_rows [[Finite False 0], [Finite True 0]]))
   \<and> mul (matrix_of_rows [[float_of_nat 2, float_of_nat 3]])
          (matrix_of_rows [[Finite False 0], [Finite True 0]])
       = Inr (matrix_of_rows [[Finite False 0]])"
proof -
  let ?A = "matrix_of_rows [[float_of_nat 2, float_of_nat 3]]"
  let ?Z = "matrix_of_rows [[Finite False 0], [Finite True 0]]"
  have h: "wf_matrix ?A" "all_finite ?A" "wf_matrix ?Z" "height ?Z = width ?A"
    "list_all is_zero (cells ?Z)"
    by (simp_all add: wf_matrix_def all_finite_def matrix_of_rows_def is_zero_def
        is_finite_float_of_nat exact_nat_iff floorlog_2_steps)
  have "zero_matrix (height ?A) (width ?Z) = matrix_of_rows [[Finite False 0]]"
    by (simp add: zero_matrix_def matrix_of_rows_def zero_float32_def)
  then show ?thesis using h mul_zero_finite[OF h] by simp
qed

section \<open>The output of the demonstration program\<close>

lemma upt_0_6: "[0..<6] = [0, 1, 2, 3, 4, 5]"
  by (simp add: upt_rec)

lemmas format_eval = format_g_def six_digits_def decimal_exponent_def scaled_digits_def
  round_div_def compute_floorlog Let_def digit_char_def with_point_def strip_zeros_def
  sign_prefix_def upt_0_6

lemma put_float_5: "put_float (float_of_nat 5) = Some ''5''"
  by (simp add: float_of_nat_small format_eval)

lemma put_float_7: "put_float (float_of_nat 7) = Some ''7''"
  by (simp add: float_of_nat_small format_eval)

lemma put_float_9: "put_float (float_of_nat 9) = Some ''9''"
  by (simp add: float_of_nat_small format_eval)

lemma main_sum:
  "operator_plus
     ([Vector_init [float_of_nat 1, float_of_nat 2, float_of_nat 3],
       Vector_init [float_of_nat 4, float_of_nat 5, float_of_nat 6]] ! 0) 1
     [Vector_init [float_of_nat 1, float_of_nat 2, float_of_nat 3],
      Vector_init [float_of_nat 4, float_of_nat 5, float_of_nat 6]]
   = Inr (Vector_init [float_of_nat 5, float_of_nat 7, float_of_nat 9],
          [Vector_init [float_of_nat 1, float_of_nat 2, float_of_nat 3],
           Vector_init [float_of_nat 4, float_of_nat 5, float_of_nat 6]])"
  by (simp add: operator_plus_closed Vector_init_def pointwise_sum_def fadd_lit)

lemma main_Cpp23:
  "main Cpp23 = Inr (''5 7 9 '' @ [CHR 0x0A], 0)"
  unfolding main_def Let_def main_sum
  by (simp add: data_span_def deref_def Vector_init_def range_for.simps
      put_float_5 put_float_7 put_float_9)

lemma main_Cpp20:
  "main Cpp20 = Inl InvalidReference"
  unfolding main_def Let_def main_sum
  by (simp add: data_span_def deref_def Vector_init_def range_for.simps)

text \<open>
  C4 (as stated, refuted).  Under neither standard does the program write the six
  bytes \<open>5 7 9\<close>, newline, and exit with code 0.
\<close>

theorem main_output_counterexample:
  "main Cpp23 \<noteq> Inr (''5 7 9'' @ [CHR 0x0A], 0) \<and> main Cpp20 \<noteq> Inr (''5 7 9'' @ [CHR 0x0A], 0)"
  by (simp add: main_Cpp23 main_Cpp20)

text \<open>
  C4 (amended).  When the temporary \<open>v1 + v2\<close> is alive while the loop reads its
  elements (C++23), the program writes each element of the sum of \<open>(1,2,3)\<close> and
  \<open>(4,5,6)\<close> followed by one space, then a newline: the seven bytes \<open>5\<close>, space, \<open>7\<close>,
  space, \<open>9\<close>, space, newline; and it returns the exit code 0.
\<close>

theorem main_output_live_temporary:
  "main Cpp23 = Inr (''5 7 9 '' @ [CHR 0x0A], 0)"
  unfolding main_def Let_def main_sum
  by (simp add: data_span_def deref_def Vector_init_def range_for.simps
      put_float_5 put_float_7 put_float_9)

section \<open>Associativity\<close>

lemma foldl_plus_sum:
  fixes f :: "nat \<Rightarrow> 'a::comm_monoid_add"
  shows "foldl (\<lambda>s k. s + f k) a [0..<n] = a + (\<Sum>k<n. f k)"
  by (induction n) (simp_all add: add.assoc)

lemma dot_sum:
  fixes A B :: "'a::semiring_0 Matrix"
  shows "dot A B i j = (\<Sum>k<width A. cell A i k * cell B k j)"
  by (simp add: dot_def foldl_plus_sum)

lemma exact_nat_small: "n < 2 ^ 24 \<Longrightarrow> exact_nat n"
  unfolding exact_nat_def by (rule representable_small) simp_all

lemma wf_map_matrix [simp]: "wf_matrix (map_matrix f m) = wf_matrix m"
  by (simp add: wf_matrix_def map_matrix_def)

lemma height_map_matrix [simp]: "height (map_matrix f m) = height m"
  by (simp add: map_matrix_def)

lemma width_map_matrix [simp]: "width (map_matrix f m) = width m"
  by (simp add: map_matrix_def)

lemma cell_map_matrix:
  "wf_matrix m \<Longrightarrow> i < height m \<Longrightarrow> j < width m \<Longrightarrow> cell (map_matrix f m) i j = f (cell m i j)"
  by (simp add: cell_def map_matrix_def wf_matrix_def index_in_range)

lemma cell_small:
  "wf_matrix m \<Longrightarrow> small_entries m \<Longrightarrow> i < height m \<Longrightarrow> j < width m \<Longrightarrow> cell m i j < 2 ^ 24"
  using cell_in_set[of m i j] by (simp add: small_entries_def list_all_iff)

lemma dot_float_of_nat_prefix:
  fixes a b :: "nat Matrix"
  assumes "wf_matrix a" "wf_matrix b" "width a \<le> height b" "i < height a" "j < width b"
    and "small_entries a" "small_entries b"
    and "(\<Sum>k<width a. cell a i k * cell b k j) < 2 ^ 24"
    and "n \<le> width a"
  shows "foldl (\<lambda>s k. s + cell (map_matrix float_of_nat a) i k * cell (map_matrix float_of_nat b) k j)
           0 [0..<n]
         = float_of_nat (\<Sum>k<n. cell a i k * cell b k j)"
  using assms(9)
proof (induction n)
  case 0
  then show ?case by (simp add: zero_lit)
next
  case (Suc n)
  then have n: "n < width a" by simp
  let ?t = "\<lambda>k. cell a i k * cell b k j"
  have ca: "cell (map_matrix float_of_nat a) i n = float_of_nat (cell a i n)"
    using assms n by (simp add: cell_map_matrix)
  have cb: "cell (map_matrix float_of_nat b) n j = float_of_nat (cell b n j)"
    using assms n by (simp add: cell_map_matrix)
  have "cell a i n < 2 ^ 24" using assms n by (intro cell_small) simp_all
  moreover have "cell b n j < 2 ^ 24" using assms n by (intro cell_small) simp_all
  ultimately have ea: "exact_nat (cell a i n)" "exact_nat (cell b n j)"
    by (simp_all only: exact_nat_small)
  have "(\<Sum>k<Suc n. ?t k) \<le> (\<Sum>k<width a. ?t k)"
    using n by (intro sum_mono2) auto
  then have le: "(\<Sum>k<n. ?t k) + ?t n < 2 ^ 24" using assms(8) by simp
  then have "(\<Sum>k<n. ?t k) < 2 ^ 24" "?t n < 2 ^ 24" by simp_all
  then have es: "exact_nat (\<Sum>k<n. ?t k)" "exact_nat (?t n)"
    by (simp_all only: exact_nat_small)
  have "foldl (\<lambda>s k. s + cell (map_matrix float_of_nat a) i k * cell (map_matrix float_of_nat b) k j)
           0 [0..<Suc n]
        = fadd (float_of_nat (\<Sum>k<n. ?t k)) (fmul (float_of_nat (cell a i n)) (float_of_nat (cell b n j)))"
    using Suc by (simp add: ca cb plus_float32_def times_float32_def)
  also have "\<dots> = float_of_nat ((\<Sum>k<n. ?t k) + ?t n)"
    using ea es by (simp add: fmul_nat fadd_nat)
  finally show ?case by simp
qed

lemma mul_float_of_nat:
  fixes a b :: "nat Matrix"
  assumes "wf_matrix a" "wf_matrix b" "width a = height b" "mul a b = Inr ab"
    and "small_entries a" "small_entries b" "small_entries ab"
  shows "mul (map_matrix float_of_nat a) (map_matrix float_of_nat b)
           = Inr (map_matrix float_of_nat ab)"
proof -
  let ?F = "map_matrix float_of_nat"
  have le: "width a \<le> height b" using assms(3) by simp
  from mul_result[OF assms(1,2) le] assms(4)
  have ab: "height ab = height a" "width ab = width b" "wf_matrix ab"
    "\<forall>i j. i < height a \<longrightarrow> j < width b \<longrightarrow> cell ab i j = dot a b i j"
    by auto
  have "width (?F a) \<le> height (?F b)" using le by simp
  from mul_result[of "?F a" "?F b"] assms(1,2) this
  obtain r where r: "mul (?F a) (?F b) = Inr r" "height r = height a" "width r = width b"
    "wf_matrix r" "\<forall>i j. i < height a \<longrightarrow> j < width b \<longrightarrow> cell r i j = dot (?F a) (?F b) i j"
    by auto
  have "r = ?F ab"
  proof (rule matrix_eqI)
    show "wf_matrix r" by (rule r(4))
    show "wf_matrix (?F ab)" using ab(3) by simp
    show "height r = height (?F ab)" using r ab by simp
    show "width r = width (?F ab)" using r ab by simp
    fix i j assume ij: "i < height r" "j < width r"
    then have i: "i < height a" and j: "j < width b" using r by simp_all
    have s: "(\<Sum>k<width a. cell a i k * cell b k j) = cell ab i j"
      using ab i j by (simp add: dot_def foldl_plus_sum)
    have "cell ab i j < 2 ^ 24"
      using ab i j assms(7) by (intro cell_small) simp_all
    then have b: "(\<Sum>k<width a. cell a i k * cell b k j) < 2 ^ 24" using s by simp
    have "cell r i j = dot (?F a) (?F b) i j" using r i j by simp
    also have "\<dots> = float_of_nat (\<Sum>k<width a. cell a i k * cell b k j)"
      unfolding dot_def width_map_matrix
      using assms(1,2) le i j assms(5,6) b
      by (rule dot_float_of_nat_prefix) simp
    also have "\<dots> = cell (?F ab) i j"
      using s ab i j by (simp add: cell_map_matrix)
    finally show "cell r i j = cell (?F ab) i j" .
  qed
  then show ?thesis using r(1) by simp
qed

lemma mul_assoc_semiring:
  fixes A B C :: "'a::semiring_0 Matrix"
  assumes "wf_matrix A" "wf_matrix B" "wf_matrix C" "width A = height B" "width B = height C"
  shows "\<exists>ab bc r. mul A B = Inr ab \<and> mul B C = Inr bc \<and> mul ab C = Inr r \<and> mul A bc = Inr r"
proof -
  obtain ab where ab: "mul A B = Inr ab" "height ab = height A" "width ab = width B"
    "wf_matrix ab" "\<forall>i j. i < height A \<longrightarrow> j < width B \<longrightarrow> cell ab i j = dot A B i j"
    using mul_result[of A B] assms by auto
  obtain bc where bc: "mul B C = Inr bc" "height bc = height B" "width bc = width C"
    "wf_matrix bc" "\<forall>i j. i < height B \<longrightarrow> j < width C \<longrightarrow> cell bc i j = dot B C i j"
    using mul_result[of B C] assms by auto
  obtain l where l: "mul ab C = Inr l" "height l = height ab" "width l = width C"
    "wf_matrix l" "\<forall>i j. i < height ab \<longrightarrow> j < width C \<longrightarrow> cell l i j = dot ab C i j"
    using mul_result[of ab C] assms ab by auto
  obtain r where r: "mul A bc = Inr r" "height r = height A" "width r = width bc"
    "wf_matrix r" "\<forall>i j. i < height A \<longrightarrow> j < width bc \<longrightarrow> cell r i j = dot A bc i j"
    using mul_result[of A bc] assms bc by auto
  have "l = r"
  proof (rule matrix_eqI)
    show "wf_matrix l" "wf_matrix r" by (rule l(4), rule r(4))
    show "height l = height r" using l ab r by simp
    show "width l = width r" using l bc r by simp
    fix i j assume ij: "i < height l" "j < width l"
    then have i: "i < height A" and j: "j < width C" using l ab by simp_all
    have "cell l i j = (\<Sum>n<width B. (\<Sum>k<width A. cell A i k * cell B k n) * cell C n j)"
      using l i j ab by (simp add: dot_sum)
    also have "\<dots> = (\<Sum>n<width B. \<Sum>k<width A. cell A i k * cell B k n * cell C n j)"
      by (simp add: sum_distrib_right)
    also have "\<dots> = (\<Sum>k<width A. \<Sum>n<width B. cell A i k * cell B k n * cell C n j)"
      by (rule sum.swap)
    also have "\<dots> = (\<Sum>k<width A. cell A i k * (\<Sum>n<width B. cell B k n * cell C n j))"
      by (simp add: sum_distrib_left mult.assoc)
    also have "\<dots> = cell r i j"
      using r i j bc assms by (simp add: dot_sum)
    finally show "cell l i j = cell r i j" .
  qed
  then show ?thesis using ab(1) bc(1) l(1) r(1) by blast
qed

text \<open>
  C8 (as stated, refuted).  With \<open>A = [[1, 1]]\<close>, \<open>B = [[2 ^ 24], [1]]\<close> and \<open>C = [[3]]\<close>:
  \<open>A B = [[2 ^ 24]]\<close> (the sum \<open>2 ^ 24 + 1\<close> rounds to \<open>2 ^ 24\<close>) and \<open>(A B) C = [[50331648]]\<close>,
  while \<open>B C = [[50331648], [3]]\<close> and \<open>A (B C) = [[50331652]]\<close> (the sum \<open>50331651\<close>
  rounds to \<open>50331652\<close>).
\<close>

theorem mul_assoc_counterexample:
  "mul (matrix_of_rows [[float_of_nat 1, float_of_nat 1]])
       (matrix_of_rows [[float_of_nat 16777216], [float_of_nat 1]])
     = Inr (matrix_of_rows [[float_of_nat 16777216]])
   \<and> mul (matrix_of_rows [[float_of_nat 16777216]]) (matrix_of_rows [[float_of_nat 3]])
     = Inr (matrix_of_rows [[float_of_nat 50331648]])
   \<and> mul (matrix_of_rows [[float_of_nat 16777216], [float_of_nat 1]]) (matrix_of_rows [[float_of_nat 3]])
     = Inr (matrix_of_rows [[float_of_nat 50331648], [float_of_nat 3]])
   \<and> mul (matrix_of_rows [[float_of_nat 1, float_of_nat 1]])
       (matrix_of_rows [[float_of_nat 50331648], [float_of_nat 3]])
     = Inr (matrix_of_rows [[float_of_nat 50331652]])
   \<and> float_of_nat 50331648 \<noteq> float_of_nat 50331652"
proof -
  have r1: "float_of_nat 16777217 = float_of_nat 16777216"
    by (simp add: float_of_nat_rounded round_units_def round_half_even_def floorlog_2_steps)
  have r2: "float_of_nat 50331651 = float_of_nat 50331652"
    by (simp add: float_of_nat_rounded round_units_def round_half_even_def floorlog_2_steps)
  have r3: "float_of_nat 50331648 \<noteq> float_of_nat 50331652"
    by (simp add: float_of_nat_rounded round_units_def round_half_even_def floorlog_2_steps)
  show ?thesis
    by (simp add: mul_eval float_lit_arith r1 r2 r3)
qed

text \<open>
  C8 (amended).  Associativity holds in binary32 arithmetic where no operation rounds:
  for matrices of natural numbers \<open>a\<close> (m by k), \<open>b\<close> (k by n) and \<open>c\<close> (n by p) such that
  every entry of \<open>a\<close>, \<open>b\<close>, \<open>c\<close> and of the exact products \<open>a b\<close>, \<open>b c\<close> and \<open>a b c\<close> is
  below \<open>2 ^ 24\<close>, each binary32 product is the exact product, so that both groupings
  return the same matrix.  For arbitrary binary32 matrices of these shapes both
  groupings return a matrix of shape m by p.
\<close>

theorem mul_assoc_no_rounding:
  fixes a b c ab bc abc :: "nat Matrix" and F G H :: "float32 Matrix"
  shows "(wf_matrix a \<and> wf_matrix b \<and> wf_matrix c \<and> width a = height b \<and> width b = height c \<and>
          mul a b = Inr ab \<and> mul b c = Inr bc \<and> mul ab c = Inr abc \<and>
          small_entries a \<and> small_entries b \<and> small_entries c \<and>
          small_entries ab \<and> small_entries bc \<and> small_entries abc \<longrightarrow>
            mul (map_matrix float_of_nat a) (map_matrix float_of_nat b)
              = Inr (map_matrix float_of_nat ab) \<and>
            mul (map_matrix float_of_nat ab) (map_matrix float_of_nat c)
              = Inr (map_matrix float_of_nat abc) \<and>
            mul (map_matrix float_of_nat b) (map_matrix float_of_nat c)
              = Inr (map_matrix float_of_nat bc) \<and>
            mul (map_matrix float_of_nat a) (map_matrix float_of_nat bc)
              = Inr (map_matrix float_of_nat abc))
       \<and> (wf_matrix F \<and> wf_matrix G \<and> wf_matrix H \<and> width F = height G \<and> width G = height H \<longrightarrow>
            (\<exists>fg gh l r. mul F G = Inr fg \<and> mul G H = Inr gh \<and>
                          mul fg H = Inr l \<and> mul F gh = Inr r \<and>
                          height l = height F \<and> width l = width H \<and>
                          height r = height F \<and> width r = width H))"
proof (intro conjI impI)
  assume a: "wf_matrix a \<and> wf_matrix b \<and> wf_matrix c \<and> width a = height b \<and> width b = height c \<and>
          mul a b = Inr ab \<and> mul b c = Inr bc \<and> mul ab c = Inr abc \<and>
          small_entries a \<and> small_entries b \<and> small_entries c \<and>
          small_entries ab \<and> small_entries bc \<and> small_entries abc"
  have ab: "height ab = height a" "width ab = width b" "wf_matrix ab"
    using mul_result[of a b] a by auto
  have bc: "height bc = height b" "width bc = width c" "wf_matrix bc"
    using mul_result[of b c] a by auto
  have "mul a bc = Inr abc"
    using mul_assoc_semiring[of a b c] a by auto
  then show "mul (map_matrix float_of_nat a) (map_matrix float_of_nat bc)
              = Inr (map_matrix float_of_nat abc)"
    using a bc by (intro mul_float_of_nat) simp_all
  show "mul (map_matrix float_of_nat a) (map_matrix float_of_nat b)
              = Inr (map_matrix float_of_nat ab)"
    using a by (intro mul_float_of_nat) simp_all
  show "mul (map_matrix float_of_nat ab) (map_matrix float_of_nat c)
              = Inr (map_matrix float_of_nat abc)"
    using a ab by (intro mul_float_of_nat) simp_all
  show "mul (map_matrix float_of_nat b) (map_matrix float_of_nat c)
              = Inr (map_matrix float_of_nat bc)"
    using a by (intro mul_float_of_nat) simp_all
next
  assume a: "wf_matrix F \<and> wf_matrix G \<and> wf_matrix H \<and> width F = height G \<and> width G = height H"
  obtain fg where fg: "mul F G = Inr fg" "height fg = height F" "width fg = width G" "wf_matrix fg"
    using mul_result[of F G] a by auto
  obtain gh where gh: "mul G H = Inr gh" "height gh = height G" "width gh = width H" "wf_matrix gh"
    using mul_result[of G H] a by auto
  obtain l where l: "mul fg H = Inr l" "height l = height fg" "width l = width H"
    using mul_result[of fg H] a fg by auto
  obtain r where r: "mul F gh = Inr r" "height r = height F" "width r = width gh"
    using mul_result[of F gh] a gh by auto
  show "\<exists>fg gh l r. mul F G = Inr fg \<and> mul G H = Inr gh \<and>
                          mul fg H = Inr l \<and> mul F gh = Inr r \<and>
                          height l = height F \<and> width l = width H \<and>
                          height r = height F \<and> width r = width H"
    using fg gh l r by auto
qed

theorem mul_assoc_no_rounding_witness:
  "mul (map_matrix float_of_nat (matrix_of_rows [[1, 2]]))
       (map_matrix float_of_nat (matrix_of_rows [[3], [4]]))
     = Inr (map_matrix float_of_nat (matrix_of_rows [[11]]))
   \<and> mul (map_matrix float_of_nat (matrix_of_rows [[11]]))
         (map_matrix float_of_nat (matrix_of_rows [[5]]))
     = Inr (map_matrix float_of_nat (matrix_of_rows [[55]]))
   \<and> mul (map_matrix float_of_nat (matrix_of_rows [[3], [4]]))
         (map_matrix float_of_nat (matrix_of_rows [[5]]))
     = Inr (map_matrix float_of_nat (matrix_of_rows [[15], [20]]))
   \<and> mul (map_matrix float_of_nat (matrix_of_rows [[1, 2]]))
         (map_matrix float_of_nat (matrix_of_rows [[15], [20]]))
     = Inr (map_matrix float_of_nat (matrix_of_rows [[55]]))
   \<and> (\<exists>fg gh l r.
          mul (matrix_of_rows [[float_of_nat 1, float_of_nat 1]])
              (matrix_of_rows [[float_of_nat 16777216], [float_of_nat 1]]) = Inr fg \<and>
          mul (matrix_of_rows [[float_of_nat 16777216], [float_of_nat 1]])
              (matrix_of_rows [[float_of_nat 3]]) = Inr gh \<and>
          mul fg (matrix_of_rows [[float_of_nat 3]]) = Inr l \<and>
          mul (matrix_of_rows [[float_of_nat 1, float_of_nat 1]]) gh = Inr r \<and>
          height l = 1 \<and> width l = 1 \<and> height r = 1 \<and> width r = 1)"
proof -
  let ?a = "matrix_of_rows [[1, 2 :: nat]]" and ?b = "matrix_of_rows [[3], [4 :: nat]]"
  let ?c = "matrix_of_rows [[5 :: nat]]"
  let ?ab = "matrix_of_rows [[11 :: nat]]" and ?bc = "matrix_of_rows [[15], [20 :: nat]]"
  let ?abc = "matrix_of_rows [[55 :: nat]]"
  let ?F = "matrix_of_rows [[float_of_nat 1, float_of_nat 1]]"
  let ?G = "matrix_of_rows [[float_of_nat 16777216], [float_of_nat 1]]"
  let ?H = "matrix_of_rows [[float_of_nat 3]]"
  have e: "wf_matrix ?a \<and> wf_matrix ?b \<and> wf_matrix ?c \<and> width ?a = height ?b \<and> width ?b = height ?c"
    by (simp add: wf_matrix_def matrix_of_rows_def)
  have p: "mul ?a ?b = Inr ?ab \<and> mul ?b ?c = Inr ?bc \<and> mul ?ab ?c = Inr ?abc"
    by (simp add: mul_eval)
  have s: "small_entries ?a \<and> small_entries ?b \<and> small_entries ?c \<and>
          small_entries ?ab \<and> small_entries ?bc \<and> small_entries ?abc"
    by (simp add: small_entries_def matrix_of_rows_def)
  have f: "wf_matrix ?F \<and> wf_matrix ?G \<and> wf_matrix ?H \<and> width ?F = height ?G \<and> width ?G = height ?H"
    by (simp add: wf_matrix_def matrix_of_rows_def)
  have hw: "height ?F = 1" "width ?H = 1" by (simp_all add: matrix_of_rows_def)
  from mul_assoc_no_rounding[of ?a ?b ?c ?ab ?bc ?abc ?F ?G ?H] e p s f
  show ?thesis unfolding hw by blast
qed

end
